theory Spec2Isabelle
  imports Main "HOL-Library.Sublist"
begin

section \<open>Python string operations used by the two crawlers\<close>

text \<open>
  Strings are character lists.  The operations below are the ones the source calls on
  \<^verbatim>\<open>str\<close>: \<^verbatim>\<open>endswith\<close>, \<^verbatim>\<open>rstrip('/')\<close>, \<^verbatim>\<open>split('/')\<close>, indexing with
  \<^verbatim>\<open>[-1]\<close>, \<^verbatim>\<open>os.path.basename\<close> and \<^verbatim>\<open>os.path.join\<close> (POSIX flavour, two arguments).
\<close>

definition endswith :: "string \<Rightarrow> string \<Rightarrow> bool" where
  "endswith s suf = prefix (rev suf) (rev s)"

definition rstrip :: "char \<Rightarrow> string \<Rightarrow> string" where
  "rstrip c s = rev (dropWhile (\<lambda>x. x = c) (rev s))"

text \<open>\<^verbatim>\<open>s.split(c)\<close>: never the empty list; \<^verbatim>\<open>''.split('/')\<close> is \<^verbatim>\<open>['']\<close>.\<close>

fun split :: "char \<Rightarrow> string \<Rightarrow> string list" where
  "split c [] = [[]]"
| "split c (x # xs) =
     (if x = c then [] # split c xs
      else (case split c xs of [] \<Rightarrow> [[x]] | seg # segs \<Rightarrow> (x # seg) # segs))"

text \<open>\<^verbatim>\<open>s.split('/')[-1]\<close>; the list is never empty, so the index never raises.\<close>

definition last_segment :: "string \<Rightarrow> string" where
  "last_segment s = last (split (CHR ''/'') s)"

text \<open>\<^verbatim>\<open>os.path.basename(p)\<close> is \<^verbatim>\<open>p[p.rfind('/') + 1:]\<close>.\<close>

definition basename :: "string \<Rightarrow> string" where
  "basename p = rev (takeWhile (\<lambda>x. x \<noteq> CHR ''/'') (rev p))"

text \<open>\<^verbatim>\<open>os.path.join(a, b)\<close> of \<^verbatim>\<open>posixpath\<close>.\<close>

definition path_join :: "string \<Rightarrow> string \<Rightarrow> string" where
  "path_join a b =
     (if prefix ''/'' b then b
      else if a = [] \<or> endswith a ''/'' then a @ b
      else a @ ''/'' @ b)"

section \<open>The two regular expressions\<close>

text \<open>
  \<^verbatim>\<open>re.findall(r'<Key>([^<]+)</Key>', text)\<close>.  The group is greedy and the text that has
  to follow it starts with \<^verbatim>\<open><\<close>, which the group cannot contain, so a match at a position
  exists exactly when \<^verbatim>\<open><Key>\<close> is followed by the longest run of characters other than
  \<^verbatim>\<open><\<close>, this run is not empty, and \<^verbatim>\<open></Key>\<close> follows.  \<open>match_key\<close> returns the group
  and the text after the match.
\<close>

definition match_key :: "string \<Rightarrow> (string \<times> string) option" where
  "match_key s =
     (if prefix ''<Key>'' s then
        (let t = drop 5 s;
             k = takeWhile (\<lambda>x. x \<noteq> CHR ''<'') t;
             r = dropWhile (\<lambda>x. x \<noteq> CHR ''<'') t
         in if k \<noteq> [] \<and> prefix ''</Key>'' r then Some (k, drop 6 r) else None)
      else None)"

text \<open>
  \<^verbatim>\<open>findall\<close> scans from the left; after a match it goes on behind the match, otherwise one
  character further.
\<close>

function findall_keys :: "string \<Rightarrow> string list" where
  "findall_keys [] = []"
| "findall_keys (c # cs) =
     (case match_key (c # cs) of
        Some (k, rest) \<Rightarrow> k # findall_keys rest
      | None \<Rightarrow> findall_keys cs)"
  by pat_completeness auto
termination
proof (relation "measure length")
  fix c :: char and cs x2 k rest
  assume m: "match_key (c # cs) = Some x2" and x2: "(k, rest) = x2"
  from m x2 obtain t where t: "c # cs = ''<Key>'' @ t"
    and r: "rest = drop 6 (dropWhile (\<lambda>x. x \<noteq> CHR ''<'') t)"
    and p: "prefix ''</Key>'' (dropWhile (\<lambda>x. x \<noteq> CHR ''<'') t)"
    by (auto simp: match_key_def Let_def prefix_def split: if_splits)
  have "length rest \<le> length t"
    using r length_dropWhile_le [of "\<lambda>x. x \<noteq> CHR ''<''" t] by simp
  moreover have "length (c # cs) = 5 + length t"
    using t by simp
  ultimately show "(rest, c # cs) \<in> measure length"
    by simp
qed simp_all

text \<open>
  \<^verbatim>\<open>re.search(r"BUCKET_NAME\s*=\s*['\"]([^'\"]+)['\"]", text)\<close>.  Each greedy part is followed
  by a character it cannot contain, so again no backtracking can rescue a failed attempt.
  \<open>is_space\<close> is \<^verbatim>\<open>\s\<close> of a \<^verbatim>\<open>str\<close> pattern on the characters below 256: the six
  ASCII white-space characters, the four separators \<^verbatim>\<open>0x1C\<close> to \<^verbatim>\<open>0x1F\<close>, the next-line
  character \<^verbatim>\<open>0x85\<close> and the no-break space \<^verbatim>\<open>0xA0\<close>.
\<close>

definition is_space :: "char \<Rightarrow> bool" where
  "is_space c = (c \<in> {CHR '' '', CHR 0x09, CHR 0x0A, CHR 0x0B, CHR 0x0C, CHR 0x0D,
                       CHR 0x1C, CHR 0x1D, CHR 0x1E, CHR 0x1F, CHR 0x85, CHR 0xA0})"

definition is_quote :: "char \<Rightarrow> bool" where
  "is_quote c = (c = CHR 0x27 \<or> c = CHR 0x22)"

definition match_bucket :: "string \<Rightarrow> string option" where
  "match_bucket s =
     (if prefix ''BUCKET_NAME'' s then
        (case dropWhile is_space (drop 11 s) of
           [] \<Rightarrow> None
         | e # t1 \<Rightarrow>
             if e \<noteq> CHR ''='' then None
             else (case dropWhile is_space t1 of
                     [] \<Rightarrow> None
                   | q # t2 \<Rightarrow>
                       if \<not> is_quote q then None
                       else (let name = takeWhile (\<lambda>x. \<not> is_quote x) t2;
                                 r = dropWhile (\<lambda>x. \<not> is_quote x) t2
                             in if name \<noteq> [] \<and> r \<noteq> [] then Some name else None)))
      else None)"

fun search_bucket :: "string \<Rightarrow> string option" where
  "search_bucket [] = None"
| "search_bucket (c # cs) =
     (case match_bucket (c # cs) of Some name \<Rightarrow> Some name | None \<Rightarrow> search_bucket cs)"

section \<open>The environment: HTTP, the HTML parser, the disk, the console\<close>

text \<open>
  Exceptions are values.  \<open>RequestException\<close> stands for \<^verbatim>\<open>requests.RequestException\<close> and
  all its subclasses (connection errors, timeouts, \<^verbatim>\<open>HTTPError\<close> of \<^verbatim>\<open>raise_for_status\<close>,
  errors while reading a body).  \<open>ValueError\<close> is what \<^verbatim>\<open>int(...)\<close> raises on a header that is
  not a number, what \<^verbatim>\<open>urljoin\<close> raises on a reference it cannot split, and what a
  file-system call raises on a name it cannot pass to the system (a NUL character, a
  character the file-system encoding does not have).  \<open>OverflowError\<close> is what the
  division of two integers raises when the quotient is too large for a float.  \<open>OSError\<close>
  stands for \<^verbatim>\<open>OSError\<close> and its subclasses, raised by the calls on the file system.
  \<open>ParserRejectedMarkup\<close> is what BeautifulSoup raises on markup that its parser gives up
  on.  \<open>SystemExit\<close> is what \<^verbatim>\<open>sys.exit\<close> raises.
\<close>

datatype exn =
  RequestException | ValueError | OverflowError | OSError | ParserRejectedMarkup | SystemExit nat

datatype 'a result = Raised exn | Returned 'a

text \<open>The \<^verbatim>\<open>content-length\<close> header as \<^verbatim>\<open>int(response.headers.get('content-length', 0))\<close> sees it.\<close>

datatype content_length_header = Absent | Numeric int | Unparsable

text \<open>
  A response: its status, its \<^verbatim>\<open>content-length\<close> header, and its body as the chunks that
  \<^verbatim>\<open>iter_content\<close> yields; with \<open>stream_error\<close> the connection breaks after the last of
  these chunks (a \<^verbatim>\<open>RequestException\<close> while reading).
\<close>

record response =
  status_code :: nat
  content_length :: content_length_header
  chunks :: "string list"
  stream_error :: bool

text \<open>A request is the URL and the \<^verbatim>\<open>params\<close> dictionary.\<close>

type_synonym request = "string \<times> (string \<times> string) list"

text \<open>
  What the program does not control:
  \<^item> \<open>http\<close>: the answer to a request; \<open>None\<close> when no response arrives (connection error,
    timeout);
  \<^item> \<open>html_anchors\<close>: BeautifulSoup's view of a page, the \<^verbatim>\<open>a\<close> elements in document order,
    each with its \<^verbatim>\<open>href\<close> attribute if it has one; \<open>None\<close> when the parser rejects the
    markup;
  \<^item> \<open>urljoin\<close>: \<^verbatim>\<open>urllib.parse.urljoin\<close>; \<open>None\<close> when it raises \<^verbatim>\<open>ValueError\<close> (as it does
    for the reference \<^verbatim>\<open>//[\<close>);
  \<^item> \<open>os_fault\<close>: the calls on the file system (\<^verbatim>\<open>mkdir\<close>, \<^verbatim>\<open>open\<close>, \<^verbatim>\<open>write\<close>, closing a
    file, \<^verbatim>\<open>os.remove\<close>) are numbered in the order in which the program makes them;
    \<open>os_fault env t\<close> tells whether call number \<open>t\<close> fails for a reason the state below does
    not show (no permission, a missing parent directory, a full disk, a name the system
    refuses), and with which exception;
  \<^item> \<open>torn\<close>: how many bytes of the file are on disk after a write or a close that failed as
    call number \<open>t\<close> (the file object is buffered, so any part of what was written may have
    reached the disk);
  \<^item> \<open>stdin_line\<close>: the line \<^verbatim>\<open>input()\<close> reads.
  Printing always succeeds in this model, \<^verbatim>\<open>time.sleep\<close> is not modelled, and two paths
  name the same file exactly when they are the same string.
\<close>

datatype os_failure = SystemFailure | NameFailure

definition raised_by :: "os_failure \<Rightarrow> exn" where
  "raised_by f = (case f of SystemFailure \<Rightarrow> OSError | NameFailure \<Rightarrow> ValueError)"

record env =
  http :: "request \<Rightarrow> response option"
  html_anchors :: "string \<Rightarrow> string option list option"
  urljoin :: "string \<Rightarrow> string \<Rightarrow> string option"
  os_fault :: "nat \<Rightarrow> os_failure option"
  torn :: "nat \<Rightarrow> nat"
  stdin_line :: string

text \<open>
  What the scripts print.  \<open>Line\<close> is a line of fixed text; every other constructor is one
  formatted line, with the values it shows.  Each script has its own messages.
\<close>

datatype caselaw_msg =
    Line string
  | ErrorFetching string
  | Progress nat int
  | ErrorDownloading
  | OutputDirectory string
  | FoundReporters nat
  | Limiting int
  | Processing nat nat string
  | FoundTarFiles nat
  | Skipping nat nat string
  | Downloading nat nat string
  | Completed string
  | Failed string
  | DownloadedCount nat
  | SkippedCount nat
  | FailedCount nat

datatype bucket_msg =
    Text string
  | FetchingListing string
  | ErrorListing
  | FoundBucket string
  | ErrorHtml
  | Trying string
  | FoundFiles nat
  | SkippingExisting string
  | DownloadingFile string
  | TransferProgress nat int
  | CompletedFile string
  | ErrorDownloadingFile string
  | FoundBz2 nat
  | Listed nat string
  | AndMore nat
  | ItemIndex nat nat
  | SuccessfulCount nat
  | FailedTotal nat

text \<open>
  The state the program changes: the regular files on disk (path to content), the
  directories, the requests sent so far (oldest first), the lines printed so far, and the
  number of calls made on the file system so far.
\<close>

record 'm world =
  files :: "string \<rightharpoonup> string"
  dirs :: "string set"
  requests :: "request list"
  console :: "'m list"
  clock :: nat

definition say :: "'m \<Rightarrow> 'm world \<Rightarrow> 'm world" where
  "say m w = w\<lparr>console := console w @ [m]\<rparr>"

text \<open>\<^verbatim>\<open>os.path.exists\<close>: true for a regular file and for a directory; it never raises.\<close>

definition exists_path :: "'m world \<Rightarrow> string \<Rightarrow> bool" where
  "exists_path w p = (files w p \<noteq> None \<or> p \<in> dirs w)"

text \<open>
  A call on the file system takes its number from the clock; \<open>fault_at\<close> is the exception
  the environment makes the next call raise, if any.
\<close>

definition tick :: "'m world \<Rightarrow> 'm world" where
  "tick w = w\<lparr>clock := Suc (clock w)\<rparr>"

definition fault_at :: "env \<Rightarrow> 'm world \<Rightarrow> exn option" where
  "fault_at env w = (case os_fault env (clock w) of None \<Rightarrow> None | Some f \<Rightarrow> Some (raised_by f))"

text \<open>
  A path with a NUL character is refused by Python before the system is asked: \<^verbatim>\<open>mkdir\<close>,
  \<^verbatim>\<open>open\<close> and \<^verbatim>\<open>os.remove\<close> raise \<^verbatim>\<open>ValueError\<close> (embedded null byte).  No file and no
  directory has such a name.
\<close>

definition embedded_null :: "string \<Rightarrow> bool" where
  "embedded_null p = (CHR 0x00 \<in> set p)"

text \<open>
  \<^verbatim>\<open>Path(d).mkdir(parents=True, exist_ok=True)\<close>: nothing to do for a directory,
  \<^verbatim>\<open>FileExistsError\<close> for a regular file.  The parents it creates on the way are not
  recorded: the program never looks at them.
\<close>

definition mkdir :: "env \<Rightarrow> string \<Rightarrow> 'm world \<Rightarrow> unit result \<times> 'm world" where
  "mkdir env d w =
     (if embedded_null d then (Raised ValueError, w)
      else case fault_at env w of
        Some e \<Rightarrow> (Raised e, tick w)
      | None \<Rightarrow>
          if d \<in> dirs w then (Returned (), tick w)
          else if files w d \<noteq> None then (Raised OSError, tick w)
          else (Returned (), tick (w\<lparr>dirs := insert d (dirs w)\<rparr>)))"

text \<open>
  \<^verbatim>\<open>os.remove(p)\<close>: \<^verbatim>\<open>OSError\<close> for a directory (\<^verbatim>\<open>IsADirectoryError\<close> or
  \<^verbatim>\<open>PermissionError\<close>) and for a path that does not exist.
\<close>

definition remove_path :: "env \<Rightarrow> string \<Rightarrow> 'm world \<Rightarrow> unit result \<times> 'm world" where
  "remove_path env p w =
     (if embedded_null p then (Raised ValueError, w)
      else case fault_at env w of
        Some e \<Rightarrow> (Raised e, tick w)
      | None \<Rightarrow>
          if p \<in> dirs w \<or> files w p = None then (Raised OSError, tick w)
          else (Returned (), tick (w\<lparr>files := (files w)(p := None)\<rparr>)))"

text \<open>
  \<^verbatim>\<open>open(path, 'wb')\<close> creates the file or truncates it; \<^verbatim>\<open>IsADirectoryError\<close> for a
  directory.
\<close>

definition open_wb :: "env \<Rightarrow> string \<Rightarrow> 'm world \<Rightarrow> unit result \<times> 'm world" where
  "open_wb env p w =
     (if embedded_null p then (Raised ValueError, w)
      else case fault_at env w of
        Some e \<Rightarrow> (Raised e, tick w)
      | None \<Rightarrow>
          if p \<in> dirs w then (Raised OSError, tick w)
          else (Returned (), tick (w\<lparr>files := (files w)(p \<mapsto> [])\<rparr>)))"

text \<open>
  \<^verbatim>\<open>f.write(chunk)\<close> and the closing of the file at the end of the \<^verbatim>\<open>with\<close> statement.  The
  content recorded for an open file is what has been written to it; when a write or the
  close fails, what stays on disk is the part \<open>torn\<close> says.
\<close>

definition f_write :: "env \<Rightarrow> string \<Rightarrow> string \<Rightarrow> 'm world \<Rightarrow> unit result \<times> 'm world" where
  "f_write env p chunk w =
     (let old = (case files w p of None \<Rightarrow> [] | Some c \<Rightarrow> c) in
      case fault_at env w of
        Some e \<Rightarrow>
          (Raised e, tick (w\<lparr>files := (files w)(p \<mapsto> take (torn env (clock w)) (old @ chunk))\<rparr>))
      | None \<Rightarrow> (Returned (), tick (w\<lparr>files := (files w)(p \<mapsto> old @ chunk)\<rparr>)))"

definition f_close :: "env \<Rightarrow> string \<Rightarrow> 'm world \<Rightarrow> unit result \<times> 'm world" where
  "f_close env p w =
     (case fault_at env w of
        Some e \<Rightarrow>
          (Raised e,
           tick (w\<lparr>files := (files w)(p := map_option (take (torn env (clock w))) (files w p))\<rparr>))
      | None \<Rightarrow> (Returned (), tick w))"

text \<open>
  \<^verbatim>\<open>requests.get(url, ...)\<close> reads the whole body, so a broken stream already fails the call;
  with \<^verbatim>\<open>stream=True\<close> the body is read later, by \<^verbatim>\<open>iter_content\<close>.
\<close>

definition requests_get :: "env \<Rightarrow> request \<Rightarrow> 'm world \<Rightarrow> response result \<times> 'm world" where
  "requests_get env rq w =
     (let w' = w\<lparr>requests := requests w @ [rq]\<rparr> in
      case http env rq of
        None \<Rightarrow> (Raised RequestException, w')
      | Some r \<Rightarrow> if stream_error r then (Raised RequestException, w') else (Returned r, w'))"

definition requests_get_stream :: "env \<Rightarrow> request \<Rightarrow> 'm world \<Rightarrow> response result \<times> 'm world" where
  "requests_get_stream env rq w =
     (let w' = w\<lparr>requests := requests w @ [rq]\<rparr> in
      case http env rq of
        None \<Rightarrow> (Raised RequestException, w')
      | Some r \<Rightarrow> (Returned r, w'))"

text \<open>
  \<^verbatim>\<open>response.text\<close> (and \<^verbatim>\<open>response.content\<close>): the body, each byte taken as one
  character.
\<close>

definition text_of :: "response \<Rightarrow> string" where
  "text_of r = concat (chunks r)"

text \<open>\<^verbatim>\<open>raise_for_status()\<close> raises for the 4xx and 5xx codes.\<close>

definition http_error :: "response \<Rightarrow> bool" where
  "http_error r = (400 \<le> status_code r \<and> status_code r < 600)"

text \<open>\<^verbatim>\<open>int(response.headers.get('content-length', 0))\<close>.\<close>

definition total_size_of :: "response \<Rightarrow> int result" where
  "total_size_of r =
     (case content_length r of
        Absent \<Rightarrow> Returned 0
      | Numeric n \<Rightarrow> Returned n
      | Unparsable \<Rightarrow> Raised ValueError)"

text \<open>
  \<^verbatim>\<open>a / b\<close> for integers \<open>a \<ge> 0\<close> and \<open>b > 0\<close> is the float nearest to the quotient, and
  \<^verbatim>\<open>OverflowError\<close> when that would be \<open>2 ^ 1024\<close>, which is when the quotient is at least
  \<open>2 ^ 1024 - 2 ^ 970\<close> (half-way between the largest float and \<open>2 ^ 1024\<close>).  The progress
  line divides three times: \<^verbatim>\<open>downloaded_size / total_size\<close>,
  \<^verbatim>\<open>downloaded_size / (1024 * 1024)\<close> and \<^verbatim>\<open>total_size / (1024 * 1024)\<close>; the product with
  100 is a product of floats and does not raise.
\<close>

definition float_limit :: int where
  "float_limit = 2 ^ 1024 - 2 ^ 970"

definition true_div_overflows :: "int \<Rightarrow> int \<Rightarrow> bool" where
  "true_div_overflows a b = (float_limit * b \<le> a)"

definition progress_overflows :: "nat \<Rightarrow> int \<Rightarrow> bool" where
  "progress_overflows downloaded_size total_size =
     (true_div_overflows (int downloaded_size) total_size \<or>
      true_div_overflows (int downloaded_size) (1024 * 1024) \<or>
      true_div_overflows total_size (1024 * 1024))"

section \<open>\<^verbatim>\<open>crawler_caselaw.py\<close>: the tree-host crawler\<close>

text \<open>The fields of \<^verbatim>\<open>CaseLawCrawler\<close> (the HTTP session is part of the environment).\<close>

record crawler =
  base_url :: string
  output_dir :: string
  downloaded_count :: nat
  failed_count :: nat
  skipped_count :: nat

text \<open>
  The loop of \<^verbatim>\<open>get_page_links\<close> over the anchors that have an \<^verbatim>\<open>href\<close>: the first
  reference that \<^verbatim>\<open>urljoin\<close> rejects ends it with \<^verbatim>\<open>ValueError\<close>.
\<close>

fun join_hrefs :: "env \<Rightarrow> string \<Rightarrow> string list \<Rightarrow> string list result" where
  "join_hrefs env u [] = Returned []"
| "join_hrefs env u (href # rest) =
     (case urljoin env u href of
        None \<Rightarrow> Raised ValueError
      | Some full_url \<Rightarrow>
          (case join_hrefs env u rest of
             Raised e \<Rightarrow> Raised e
           | Returned links \<Rightarrow> Returned (full_url # links)))"

text \<open>Lines 33 to 41: parsing the page and collecting the links.\<close>

definition parse_links :: "env \<Rightarrow> string \<Rightarrow> response \<Rightarrow> string list result" where
  "parse_links env u r =
     (case html_anchors env (text_of r) of
        None \<Rightarrow> Raised ParserRejectedMarkup
      | Some anchors \<Rightarrow> join_hrefs env u (List.map_filter id anchors))"

text \<open>
  \<^verbatim>\<open>get_page_links\<close>: a \<^verbatim>\<open>RequestException\<close> of the request or of \<^verbatim>\<open>raise_for_status\<close> is
  caught; the method prints and returns the empty list.  What parsing and joining raise is
  not a \<^verbatim>\<open>RequestException\<close> and leaves the method.
\<close>

definition get_page_links ::
  "env \<Rightarrow> string \<Rightarrow> caselaw_msg world \<Rightarrow> string list result \<times> caselaw_msg world" where
  "get_page_links env u w =
     (case requests_get env (u, []) w of
        (Raised e, w1) \<Rightarrow>
          (if e = RequestException then (Returned [], say (ErrorFetching u) w1)
           else (Raised e, w1))
      | (Returned r, w1) \<Rightarrow>
          if http_error r then (Returned [], say (ErrorFetching u) w1)
          else (case parse_links env u r of
                  Raised e \<Rightarrow> (Raised e, w1)
                | Returned links \<Rightarrow> (Returned links, w1)))"

text \<open>The loop of \<^verbatim>\<open>get_reporter_directories\<close> over the links of the main page.\<close>

fun reporters_of :: "string \<Rightarrow> string list \<Rightarrow> (string \<times> string) list" where
  "reporters_of base [] = []"
| "reporters_of base (link # links) =
     (if endswith link ''/'' \<and> link \<noteq> base then
        (let reporter_name = last_segment (rstrip (CHR ''/'') link) in
         if reporter_name \<noteq> [] \<and> \<not> endswith reporter_name ''.json''
         then (reporter_name, link) # reporters_of base links
         else reporters_of base links)
      else reporters_of base links)"

definition get_reporter_directories ::
  "env \<Rightarrow> crawler \<Rightarrow> caselaw_msg world \<Rightarrow> (string \<times> string) list result \<times> caselaw_msg world"
  where
  "get_reporter_directories env self w =
     (case get_page_links env (base_url self)
             (say (Line ''Discovering reporter directories...'') w) of
        (Raised e, w1) \<Rightarrow> (Raised e, w1)
      | (Returned links, w1) \<Rightarrow> (Returned (reporters_of (base_url self) links), w1))"

definition get_tar_files ::
  "env \<Rightarrow> string \<Rightarrow> caselaw_msg world \<Rightarrow> string list result \<times> caselaw_msg world" where
  "get_tar_files env reporter_url w =
     (case get_page_links env reporter_url w of
        (Raised e, w1) \<Rightarrow> (Raised e, w1)
      | (Returned links, w1) \<Rightarrow> (Returned (filter (\<lambda>link. endswith link ''.tar'') links), w1))"

text \<open>
  The body of \<^verbatim>\<open>with open(output_path, 'wb') as f\<close>: the chunks still to come, the total size,
  the bytes written so far.  When the chunks are used up and the stream is broken, reading
  raises.  After each write the progress line is computed, and this may raise
  \<^verbatim>\<open>OverflowError\<close>.  Both scripts have this loop; they differ in the progress line only,
  which is the parameter \<open>progress\<close>.
\<close>

fun write_chunks ::
  "env \<Rightarrow> (nat \<Rightarrow> int \<Rightarrow> 'm) \<Rightarrow> string \<Rightarrow> int \<Rightarrow> nat \<Rightarrow> string list \<Rightarrow> bool \<Rightarrow> 'm world
     \<Rightarrow> unit result \<times> 'm world" where
  "write_chunks env progress output_path total_size downloaded_size [] broken w =
     (if broken then (Raised RequestException, w) else (Returned (), w))"
| "write_chunks env progress output_path total_size downloaded_size (chunk # rest) broken w =
     (if chunk \<noteq> [] then
        (case f_write env output_path chunk w of
           (Raised e, w1) \<Rightarrow> (Raised e, w1)
         | (Returned u, w1) \<Rightarrow>
             (let downloaded_size' = downloaded_size + length chunk in
              if total_size > 0 then
                (if progress_overflows downloaded_size' total_size then (Raised OverflowError, w1)
                 else write_chunks env progress output_path total_size downloaded_size' rest broken
                        (say (progress downloaded_size' total_size) w1))
              else write_chunks env progress output_path total_size downloaded_size' rest broken w1))
      else write_chunks env progress output_path total_size downloaded_size rest broken w)"

text \<open>
  The \<^verbatim>\<open>with\<close> statement: the file is opened, the loop runs, and the file is closed however
  the loop ends; when closing fails, its exception is the one that leaves the statement.
\<close>

definition save_stream ::
  "env \<Rightarrow> (nat \<Rightarrow> int \<Rightarrow> 'm) \<Rightarrow> string \<Rightarrow> int \<Rightarrow> response \<Rightarrow> 'm world \<Rightarrow> unit result \<times> 'm world"
  where
  "save_stream env progress output_path total_size r w =
     (case open_wb env output_path w of
        (Raised e, w1) \<Rightarrow> (Raised e, w1)
      | (Returned u, w1) \<Rightarrow>
          (case write_chunks env progress output_path total_size 0 (chunks r) (stream_error r) w1 of
             (res, w2) \<Rightarrow>
               (case f_close env output_path w2 of
                  (Raised e, w3) \<Rightarrow> (Raised e, w3)
                | (Returned u, w3) \<Rightarrow> (res, w3))))"

text \<open>The \<^verbatim>\<open>try\<close> block of \<^verbatim>\<open>download_file\<close>.\<close>

definition download_attempt ::
  "env \<Rightarrow> string \<Rightarrow> string \<Rightarrow> caselaw_msg world \<Rightarrow> bool result \<times> caselaw_msg world" where
  "download_attempt env u output_path w =
     (case requests_get_stream env (u, []) w of
        (Raised e, w1) \<Rightarrow> (Raised e, w1)
      | (Returned r, w1) \<Rightarrow>
          if http_error r then (Raised RequestException, w1)
          else (case total_size_of r of
                  Raised e \<Rightarrow> (Raised e, w1)
                | Returned total_size \<Rightarrow>
                    (case save_stream env Progress output_path total_size r w1 of
                       (Raised e, w2) \<Rightarrow> (Raised e, w2)
                     | (Returned u, w2) \<Rightarrow> (Returned True, say (Line []) w2))))"

text \<open>
  \<^verbatim>\<open>download_file\<close>: the \<^verbatim>\<open>except requests.RequestException\<close> clause around the attempt.
  What \<^verbatim>\<open>os.remove\<close> raises leaves the method.
\<close>

definition download_file ::
  "env \<Rightarrow> string \<Rightarrow> string \<Rightarrow> caselaw_msg world \<Rightarrow> bool result \<times> caselaw_msg world" where
  "download_file env u output_path w =
     (case download_attempt env u output_path w of
        (Raised e, w1) \<Rightarrow>
          (if e = RequestException then
             (let w2 = say ErrorDownloading w1 in
              if exists_path w2 output_path then
                (case remove_path env output_path w2 of
                   (Raised e', w3) \<Rightarrow> (Raised e', w3)
                 | (Returned u, w3) \<Rightarrow> (Returned False, w3))
              else (Returned False, w2))
           else (Raised e, w1))
      | (Returned b, w1) \<Rightarrow> (Returned b, w1))"

text \<open>The loop over the tar files of one reporter (lines 150 to 170).\<close>

fun download_tars ::
  "env \<Rightarrow> string \<Rightarrow> nat \<Rightarrow> nat \<Rightarrow> string list \<Rightarrow> crawler \<Rightarrow> caselaw_msg world
     \<Rightarrow> unit result \<times> crawler \<times> caselaw_msg world" where
  "download_tars env reporter_dir n tar_idx [] self w = (Returned (), self, w)"
| "download_tars env reporter_dir n tar_idx (tar_url # rest) self w =
     (let filename = last_segment tar_url;
          output_path = path_join reporter_dir filename
      in if exists_path w output_path then
           download_tars env reporter_dir n (tar_idx + 1) rest
             (self\<lparr>skipped_count := skipped_count self + 1\<rparr>)
             (say (Skipping tar_idx n filename) w)
         else
           (case download_file env tar_url output_path (say (Downloading tar_idx n filename) w) of
              (Raised e, w1) \<Rightarrow> (Raised e, self, w1)
            | (Returned ok, w1) \<Rightarrow>
                if ok then
                  download_tars env reporter_dir n (tar_idx + 1) rest
                    (self\<lparr>downloaded_count := downloaded_count self + 1\<rparr>)
                    (say (Completed filename) w1)
                else
                  download_tars env reporter_dir n (tar_idx + 1) rest
                    (self\<lparr>failed_count := failed_count self + 1\<rparr>)
                    (say (Failed filename) w1)))"

text \<open>The loop over the reporters (lines 133 to 172).\<close>

fun process_reporters ::
  "env \<Rightarrow> nat \<Rightarrow> nat \<Rightarrow> (string \<times> string) list \<Rightarrow> crawler \<Rightarrow> caselaw_msg world
     \<Rightarrow> unit result \<times> crawler \<times> caselaw_msg world" where
  "process_reporters env n idx [] self w = (Returned (), self, w)"
| "process_reporters env n idx ((reporter_name, reporter_url) # rest) self w =
     (let w0 = say (Processing idx n reporter_name) w;
          reporter_dir = path_join (output_dir self) reporter_name
      in case mkdir env reporter_dir w0 of
           (Raised e, wd) \<Rightarrow> (Raised e, self, wd)
         | (Returned u, wd) \<Rightarrow>
             (case get_tar_files env reporter_url wd of
                (Raised e, w1) \<Rightarrow> (Raised e, self, w1)
              | (Returned tar_files, w1) \<Rightarrow>
                  if tar_files = [] then
                    process_reporters env n (idx + 1) rest self
                      (say (Line ''  No .tar files found'') w1)
                  else
                    (case download_tars env reporter_dir (length tar_files) 1 tar_files self
                            (say (FoundTarFiles (length tar_files)) w1) of
                       (Raised e, self2, w2) \<Rightarrow> (Raised e, self2, w2)
                     | (Returned u, self2, w2) \<Rightarrow>
                         process_reporters env n (idx + 1) rest self2 (say (Line []) w2))))"

text \<open>\<^verbatim>\<open>reporters[:limit_reporters]\<close>, for a limit of either sign.\<close>

definition slice_to :: "int \<Rightarrow> 'a list \<Rightarrow> 'a list" where
  "slice_to k xs = (if 0 \<le> k then take (nat k) xs else take (length xs - nat (- k)) xs)"

definition summary :: "crawler \<Rightarrow> caselaw_msg list" where
  "summary self =
     [Line (replicate 60 (CHR ''='')), Line ''Download Complete!'', Line (replicate 60 (CHR ''='')),
      DownloadedCount (downloaded_count self), SkippedCount (skipped_count self),
      FailedCount (failed_count self), OutputDirectory (output_dir self),
      Line (replicate 60 (CHR ''=''))]"

definition crawl_and_download ::
  "env \<Rightarrow> int option \<Rightarrow> crawler \<Rightarrow> caselaw_msg world \<Rightarrow> unit result \<times> crawler \<times> caselaw_msg world"
  where
  "crawl_and_download env limit_reporters self w =
     (let w0 = w\<lparr>console := console w @
                  [Line ''Case Law Crawler - https://static.case.law/'',
                   Line (replicate 60 (CHR ''='')), OutputDirectory (output_dir self), Line []]\<rparr>
      in case get_reporter_directories env self w0 of
           (Raised e, w1) \<Rightarrow> (Raised e, self, w1)
         | (Returned reporters, w1) \<Rightarrow>
             if reporters = [] then
               (Returned (), self, say (Line ''No reporter directories found!'') w1)
             else
               (let w2 = say (FoundReporters (length reporters)) w1;
                    reporters' = (case limit_reporters of
                                    None \<Rightarrow> reporters
                                  | Some k \<Rightarrow> if k \<noteq> 0 then slice_to k reporters else reporters);
                    w3 = (case limit_reporters of
                            None \<Rightarrow> w2
                          | Some k \<Rightarrow> if k \<noteq> 0 then say (Limiting k) w2 else w2)
                in case process_reporters env (length reporters') 1 reporters' self
                          (say (Line []) w3) of
                     (Raised e, self4, w4) \<Rightarrow> (Raised e, self4, w4)
                   | (Returned u, self4, w4) \<Rightarrow>
                       (Returned (), self4, w4\<lparr>console := console w4 @ summary self4\<rparr>)))"

section \<open>\<^verbatim>\<open>crawler_courtlistener.py\<close>: the object-store crawler\<close>

definition bz2_keys :: "string \<Rightarrow> string list" where
  "bz2_keys body = filter (\<lambda>key. endswith key ''.bz2'') (findall_keys body)"

text \<open>\<^verbatim>\<open>get_s3_bucket_listing\<close>; \<open>None\<close> is Python's \<^verbatim>\<open>None\<close>.\<close>

definition get_s3_bucket_listing ::
  "env \<Rightarrow> string \<Rightarrow> bucket_msg world \<Rightarrow> string list option result \<times> bucket_msg world" where
  "get_s3_bucket_listing env bucket_url w =
     (case requests_get env (bucket_url, [(''prefix'', ''bulk-data/'')])
             (say (FetchingListing bucket_url) w) of
        (Raised e, w1) \<Rightarrow>
          (if e = RequestException then (Returned None, say ErrorListing w1) else (Raised e, w1))
      | (Returned r, w1) \<Rightarrow>
          if http_error r then (Returned None, say ErrorListing w1)
          else (Returned (Some (bz2_keys (text_of r))), w1))"

definition get_files_from_html_listing ::
  "env \<Rightarrow> string \<Rightarrow> bucket_msg world \<Rightarrow> string list option result \<times> bucket_msg world" where
  "get_files_from_html_listing env list_url w =
     (case requests_get env (list_url, [])
             (say (Text ''Attempting to fetch from HTML listing page...'') w) of
        (Raised e, w1) \<Rightarrow>
          (if e = RequestException then (Returned None, say ErrorHtml w1) else (Raised e, w1))
      | (Returned r, w1) \<Rightarrow>
          if http_error r then (Returned None, say ErrorHtml w1)
          else (case search_bucket (text_of r) of
                  Some bucket_name \<Rightarrow>
                    get_s3_bucket_listing env
                      (''https://'' @ bucket_name @ ''.s3-us-west-2.amazonaws.com/'')
                      (say (FoundBucket bucket_name) w1)
                | None \<Rightarrow>
                    (Returned None, say (Text ''Could not extract bucket name from HTML'') w1)))"

text \<open>
  The loop of \<^verbatim>\<open>get_files_alternative_method\<close>; its bare \<^verbatim>\<open>except\<close> catches whatever the
  request raises, and the loop goes on.
\<close>

fun try_endpoints ::
  "env \<Rightarrow> string list \<Rightarrow> bucket_msg world \<Rightarrow> string list option result \<times> bucket_msg world" where
  "try_endpoints env [] w = (Returned None, w)"
| "try_endpoints env (endpoint # rest) w =
     (case requests_get env (endpoint, []) (say (Trying endpoint) w) of
        (Raised e, w1) \<Rightarrow> try_endpoints env rest w1
      | (Returned r, w1) \<Rightarrow>
          if status_code r = 200 then
            (let bz2_files = bz2_keys (text_of r) in
             if bz2_files \<noteq> [] then (Returned (Some bz2_files), say (FoundFiles (length bz2_files)) w1)
             else try_endpoints env rest w1)
          else try_endpoints env rest w1)"

definition endpoints :: "string \<Rightarrow> string list" where
  "endpoints base =
     [base @ ''?list-type=2&prefix=bulk-data/'',
      base @ ''?prefix=bulk-data/'',
      base @ ''?delimiter=/&prefix=bulk-data/'']"

definition get_files_alternative_method ::
  "env \<Rightarrow> string \<Rightarrow> bucket_msg world \<Rightarrow> string list option result \<times> bucket_msg world" where
  "get_files_alternative_method env base w =
     try_endpoints env (endpoints base) (say (Text ''Trying alternative discovery methods...'') w)"

text \<open>\<^verbatim>\<open>download_file(filename, base_url, output_dir)\<close> of this script.\<close>

definition bucket_download_attempt ::
  "env \<Rightarrow> string \<Rightarrow> string \<Rightarrow> bucket_msg world \<Rightarrow> unit result \<times> bucket_msg world" where
  "bucket_download_attempt env u filepath w =
     (case requests_get_stream env (u, []) w of
        (Raised e, w1) \<Rightarrow> (Raised e, w1)
      | (Returned r, w1) \<Rightarrow>
          if http_error r then (Raised RequestException, w1)
          else (case total_size_of r of
                  Raised e \<Rightarrow> (Raised e, w1)
                | Returned total_size \<Rightarrow>
                    save_stream env TransferProgress filepath total_size r w1))"

definition bucket_download_file ::
  "env \<Rightarrow> string \<Rightarrow> string \<Rightarrow> string \<Rightarrow> bucket_msg world \<Rightarrow> bool result \<times> bucket_msg world" where
  "bucket_download_file env filename base out_dir w =
     (let u = base @ filename;
          filepath = path_join out_dir (basename filename)
      in if exists_path w filepath then (Returned True, say (SkippingExisting (basename filename)) w)
         else
           (case bucket_download_attempt env u filepath
                   (say (DownloadingFile (basename filename)) w) of
              (Raised e, w1) \<Rightarrow>
                (if e = RequestException then
                   (let w2 = say (ErrorDownloadingFile (basename filename)) w1 in
                    if exists_path w2 filepath then
                      (case remove_path env filepath w2 of
                         (Raised e', w3) \<Rightarrow> (Raised e', w3)
                       | (Returned u, w3) \<Rightarrow> (Returned False, w3))
                    else (Returned False, w2))
                 else (Raised e, w1))
            | (Returned u, w1) \<Rightarrow> (Returned True, say (CompletedFile (basename filename)) w1)))"

text \<open>The constants of \<^verbatim>\<open>main\<close>.\<close>

definition list_url :: string where
  "list_url = ''https://com-courtlistener-storage.s3-us-west-2.amazonaws.com/list.html?prefix=bulk-data/''"

definition storage_base_url :: string where
  "storage_base_url = ''https://storage.courtlistener.com/bulk-data/''"

definition s3_base_url :: string where
  "s3_base_url = ''https://com-courtlistener-storage.s3-us-west-2.amazonaws.com/''"

definition downloads_dir :: string where
  "downloads_dir = ''courtlistener_downloads''"

text \<open>\<^verbatim>\<open>not bz2_files\<close>: \<^verbatim>\<open>None\<close> or the empty list.\<close>

definition no_files :: "string list option \<Rightarrow> bool" where
  "no_files fs = (case fs of None \<Rightarrow> True | Some ks \<Rightarrow> ks = [])"

text \<open>Lines 158 to 171 of \<^verbatim>\<open>main\<close>: the three discovery methods.\<close>

definition discover_files ::
  "env \<Rightarrow> bucket_msg world \<Rightarrow> string list option result \<times> bucket_msg world" where
  "discover_files env w =
     (case get_files_from_html_listing env list_url w of
        (Raised e, w1) \<Rightarrow> (Raised e, w1)
      | (Returned m1, w1) \<Rightarrow>
          (case (if no_files m1 then get_files_alternative_method env s3_base_url w1
                 else (Returned m1, w1)) of
             (Raised e, w2) \<Rightarrow> (Raised e, w2)
           | (Returned m2, w2) \<Rightarrow>
               if no_files m2
               then get_s3_bucket_listing env storage_base_url
                      (say (Text (CHR 0x0A # ''Trying storage.courtlistener.com endpoint...'')) w2)
               else (Returned m2, w2)))"

text \<open>The download loop of \<^verbatim>\<open>main\<close> (lines 208 to 216); it returns the two counters.\<close>

fun download_all ::
  "env \<Rightarrow> string \<Rightarrow> string \<Rightarrow> nat \<Rightarrow> nat \<Rightarrow> string list \<Rightarrow> nat \<Rightarrow> nat \<Rightarrow> bucket_msg world
     \<Rightarrow> (nat \<times> nat) result \<times> bucket_msg world" where
  "download_all env base out_dir n i [] successful failed w = (Returned (successful, failed), w)"
| "download_all env base out_dir n i (filename # rest) successful failed w =
     (case bucket_download_file env filename base out_dir (say (ItemIndex i n) w) of
        (Raised e, w1) \<Rightarrow> (Raised e, w1)
      | (Returned ok, w1) \<Rightarrow>
          if ok then download_all env base out_dir n (i + 1) rest (successful + 1) failed w1
          else download_all env base out_dir n (i + 1) rest successful (failed + 1) w1)"

text \<open>\<^verbatim>\<open>response.lower() != 'y'\<close> holds for every answer but \<^verbatim>\<open>y\<close> and \<^verbatim>\<open>Y\<close>.\<close>

definition declined :: "string \<Rightarrow> bool" where
  "declined answer = (answer \<noteq> ''y'' \<and> answer \<noteq> ''Y'')"

text \<open>The lines printed between discovery and the loop, the prompt of \<^verbatim>\<open>input\<close> included.\<close>

definition announce :: "string list \<Rightarrow> bucket_msg list" where
  "announce bz2_files =
     [Text (CHR 0x0A # replicate 60 (CHR ''-'')), FoundBz2 (length bz2_files),
      Text (replicate 60 (CHR ''-'')), Text (CHR 0x0A # ''First 10 files:'')] @
     map (\<lambda>(i, filename). Listed i filename)
       (zip [1 ..< Suc (length (take 10 bz2_files))] (take 10 bz2_files)) @
     (if length bz2_files > 10 then [AndMore (length bz2_files - 10)] else []) @
     [Text (CHR 0x0A # replicate 60 (CHR ''-'')),
      Text ''Do you want to download all these files? (y/n): '']"

text \<open>The help printed when nothing was discovered (lines 174 to 187).\<close>

definition discovery_help :: "bucket_msg list" where
  "discovery_help =
     [Text (CHR 0x0A # replicate 60 (CHR ''='')),
      Text ''ERROR: Could not discover files automatically.'',
      Text (replicate 60 (CHR ''='')),
      Text (CHR 0x0A # ''This may be due to:''),
      Text ''1. Network restrictions/proxy blocking S3 access'',
      Text ''2. Changes in the bucket configuration'',
      Text ''3. The bucket requiring authentication'',
      Text (CHR 0x0A # ''Alternative methods to download:''),
      Text ''1. Use AWS CLI directly:'',
      Text ''   aws s3 sync s3://com-courtlistener-storage/bulk-data/ ./courtlistener_downloads/ --no-sign-request'',
      Text (CHR 0x0A # ''2. Visit the CourtListener bulk data page:''),
      Text ''   https://www.courtlistener.com/help/api/bulk-data/'',
      Text (CHR 0x0A # ''3. Check if the files are listed at:''),
      Text ''   https://storage.courtlistener.com/bulk-data/'']"

text \<open>The summary at the end of \<^verbatim>\<open>main\<close>.\<close>

definition report :: "nat \<Rightarrow> nat \<Rightarrow> bucket_msg list" where
  "report successful failed =
     [Text (CHR 0x0A # replicate 60 (CHR ''='')), Text ''Download complete!'',
      SuccessfulCount successful, FailedTotal failed,
      Text ''Output directory: courtlistener_downloads/'', Text (replicate 60 (CHR ''=''))]"

text \<open>
  \<^verbatim>\<open>main\<close> from line 156 on; \<^verbatim>\<open>sys.exit\<close> raises \<^verbatim>\<open>SystemExit\<close>.  The directory
  \<^verbatim>\<open>courtlistener_downloads\<close> has been created at line 155, before anything is printed or
  requested: the worlds \<open>main\<close> starts in are those in which that call has returned.
\<close>

definition main :: "env \<Rightarrow> bucket_msg world \<Rightarrow> unit result \<times> bucket_msg world" where
  "main env w =
     (case discover_files env
             (say (Text (''Files will be saved to: courtlistener_downloads/'' @ [CHR 0x0A])) w) of
        (Raised e, w1) \<Rightarrow> (Raised e, w1)
      | (Returned found, w1) \<Rightarrow>
          if no_files found then
            (Raised (SystemExit 1), w1\<lparr>console := console w1 @ discovery_help\<rparr>)
          else
            (let bz2_files = (case found of None \<Rightarrow> [] | Some ks \<Rightarrow> ks);
                 w2 = w1\<lparr>console := console w1 @ announce bz2_files\<rparr>
             in if declined (stdin_line env) then
                  (Raised (SystemExit 0), say (Text ''Download cancelled.'') w2)
                else
                  (case download_all env s3_base_url downloads_dir (length bz2_files) 1 bz2_files
                          0 0 w2 of
                     (Raised e, w3) \<Rightarrow> (Raised e, w3)
                   | (Returned (successful, failed), w3) \<Rightarrow>
                       (Returned (), w3\<lparr>console := console w3 @ report successful failed\<rparr>))))"

section \<open>Notions of the specification\<close>

text \<open>
  The language of the pattern \<^verbatim>\<open><Key>([^<]+)</Key>\<close>: a key is a non-empty text without
  \<^verbatim>\<open><\<close>, and an occurrence of the pattern is a key between the two tags.  A text is
  \<open>tag_free\<close> when no occurrence lies in it.
\<close>

definition valid_key :: "string \<Rightarrow> bool" where
  "valid_key k = (k \<noteq> [] \<and> CHR ''<'' \<notin> set k)"

definition key_tag :: "string \<Rightarrow> string" where
  "key_tag k = ''<Key>'' @ k @ ''</Key>''"

definition tag_free :: "string \<Rightarrow> bool" where
  "tag_free x = (\<forall>a k b. valid_key k \<longrightarrow> x \<noteq> a @ key_tag k @ b)"

text \<open>
  A response body with its occurrences laid out in document order: each occurrence with
  the text before it, and the text after the last one.
\<close>

fun listing_body :: "(string \<times> string) list \<Rightarrow> string \<Rightarrow> string" where
  "listing_body [] tail = tail"
| "listing_body ((pre, k) # rest) tail = pre @ key_tag k @ listing_body rest tail"

text \<open>
  \<^verbatim>\<open>listReporters\<close> in the words of the specification: the final non-empty path segment
  of a link, and the links kept.  A link made of separators only has no such segment, so
  no name can be derived for it.
\<close>

definition final_nonempty_segment :: "string \<Rightarrow> string option" where
  "final_nonempty_segment l =
     (let segs = filter (\<lambda>seg. seg \<noteq> []) (split (CHR ''/'') l)
      in if segs = [] then None else Some (last segs))"

definition listReporters_spec :: "string \<Rightarrow> string list \<Rightarrow> (string \<times> string) list" where
  "listReporters_spec root links =
     map (\<lambda>l. (the (final_nonempty_segment l), l))
       (filter (\<lambda>l. endswith l ''/'' \<and> l \<noteq> root \<and>
                     (case final_nonempty_segment l of
                        None \<Rightarrow> False
                      | Some name \<Rightarrow> \<not> endswith name ''.json'')) links)"

text \<open>
  What may happen to the transfer of one URL, as far as the server decides it.
  \<open>progress_ok\<close>: the \<^verbatim>\<open>content-length\<close> header, if sent, is a number, and no progress line
  of the body overflows (so neither \<^verbatim>\<open>ValueError\<close> nor \<^verbatim>\<open>OverflowError\<close> is raised).
  \<open>transfer_fails\<close>: the transfer ends in a \<^verbatim>\<open>RequestException\<close>: no response, an error
  status, or a stream that breaks after the file was opened.  \<open>transfer_succeeds\<close>: the
  whole body arrives.  \<open>body_of\<close>: the body the server sends.  \<open>no_os_fault\<close>: no call on the
  file system fails for a reason outside the state.  \<open>writable\<close>: the state and the name
  allow opening the path for writing (no NUL character, not a directory).
\<close>

definition progress_ok :: "response \<Rightarrow> bool" where
  "progress_ok r =
     (case total_size_of r of
        Raised e \<Rightarrow> False
      | Returned total_size \<Rightarrow>
          total_size \<le> 0 \<or> \<not> progress_overflows (length (concat (chunks r))) total_size)"

definition transfer_fails :: "env \<Rightarrow> string \<Rightarrow> bool" where
  "transfer_fails env u =
     (case http env (u, []) of
        None \<Rightarrow> True
      | Some r \<Rightarrow> http_error r \<or> (stream_error r \<and> progress_ok r))"

definition transfer_succeeds :: "env \<Rightarrow> string \<Rightarrow> bool" where
  "transfer_succeeds env u =
     (case http env (u, []) of
        None \<Rightarrow> False
      | Some r \<Rightarrow> \<not> http_error r \<and> \<not> stream_error r \<and> progress_ok r)"

definition no_os_fault :: "env \<Rightarrow> bool" where
  "no_os_fault env = (\<forall>t. os_fault env t = None)"

definition writable :: "'m world \<Rightarrow> string \<Rightarrow> bool" where
  "writable w p = (\<not> embedded_null p \<and> p \<notin> dirs w)"

definition body_of :: "env \<Rightarrow> string \<Rightarrow> string" where
  "body_of env u = (case http env (u, []) of None \<Rightarrow> [] | Some r \<Rightarrow> concat (chunks r))"

text \<open>
  What the environment answers, seen without the state.  \<open>page_links\<close>: the links
  \<^verbatim>\<open>get_page_links\<close> finds on a page (none when the page cannot be fetched, and none
  when parsing it raises); \<open>tar_links\<close>: the archives \<^verbatim>\<open>get_tar_files\<close> finds.
\<close>

definition page_links :: "env \<Rightarrow> string \<Rightarrow> string list" where
  "page_links env u =
     (case http env (u, []) of
        None \<Rightarrow> []
      | Some r \<Rightarrow>
          if stream_error r \<or> http_error r then []
          else (case parse_links env u r of Raised e \<Rightarrow> [] | Returned links \<Rightarrow> links))"

definition tar_links :: "env \<Rightarrow> string \<Rightarrow> string list" where
  "tar_links env reporter_url = filter (\<lambda>link. endswith link ''.tar'') (page_links env reporter_url)"


definition selected_reporters :: "env \<Rightarrow> int option \<Rightarrow> crawler \<Rightarrow> (string \<times> string) list" where
  "selected_reporters env limit_reporters self =
     (let reporters = reporters_of (base_url self) (page_links env (base_url self))
      in case limit_reporters of
           None \<Rightarrow> reporters
         | Some k \<Rightarrow> if k \<noteq> 0 then slice_to k reporters else reporters)"

text \<open>The local file of a key in the object-store script.\<close>

definition destination :: "string \<Rightarrow> string \<Rightarrow> string" where
  "destination out_dir filename = path_join out_dir (basename filename)"

text \<open>
  What the endpoints of discovery yield.  \<open>listing_keys\<close>: the result of
  \<^verbatim>\<open>get_s3_bucket_listing\<close> for a bucket URL; \<open>html_bucket\<close>: the bucket name found on the
  HTML listing page; \<open>html_keys\<close> and \<open>html_requests\<close>: the keys method 1 yields and the
  requests it sends; \<open>alt_keys\<close>: the keys an alternate URL of method 2 yields (none unless
  the status is 200).
\<close>

definition prefix_params :: "(string \<times> string) list" where
  "prefix_params = [(''prefix'', ''bulk-data/'')]"

definition listing_keys :: "env \<Rightarrow> string \<Rightarrow> string list option" where
  "listing_keys env bucket_url =
     (case http env (bucket_url, prefix_params) of
        None \<Rightarrow> None
      | Some r \<Rightarrow> if stream_error r \<or> http_error r then None else Some (bz2_keys (text_of r)))"

definition html_bucket :: "env \<Rightarrow> string option" where
  "html_bucket env =
     (case http env (list_url, []) of
        None \<Rightarrow> None
      | Some r \<Rightarrow> if stream_error r \<or> http_error r then None else search_bucket (text_of r))"

definition bucket_url_of :: "string \<Rightarrow> string" where
  "bucket_url_of bucket_name = ''https://'' @ bucket_name @ ''.s3-us-west-2.amazonaws.com/''"

definition html_keys :: "env \<Rightarrow> string list option" where
  "html_keys env =
     (case html_bucket env of None \<Rightarrow> None | Some b \<Rightarrow> listing_keys env (bucket_url_of b))"

definition html_requests :: "env \<Rightarrow> request list" where
  "html_requests env =
     (list_url, []) #
     (case html_bucket env of None \<Rightarrow> [] | Some b \<Rightarrow> [(bucket_url_of b, prefix_params)])"

definition alt_keys :: "env \<Rightarrow> string \<Rightarrow> string list" where
  "alt_keys env endpoint =
     (case http env (endpoint, []) of
        None \<Rightarrow> []
      | Some r \<Rightarrow> if \<not> stream_error r \<and> status_code r = 200 then bz2_keys (text_of r) else [])"

text \<open>
  Method 2 over a list of alternates: the alternates asked (those that yield nothing, and
  the first one that yields keys), and the keys of that first one.
\<close>

fun queried :: "env \<Rightarrow> string list \<Rightarrow> string list" where
  "queried env [] = []"
| "queried env (e # es) = (if alt_keys env e \<noteq> [] then [e] else e # queried env es)"

fun first_keys :: "env \<Rightarrow> string list \<Rightarrow> string list option" where
  "first_keys env [] = None"
| "first_keys env (e # es) = (if alt_keys env e \<noteq> [] then Some (alt_keys env e) else first_keys env es)"

text \<open>
  The chain: the keys of the first method that yields a non-empty list, and the requests
  sent up to that point.
\<close>

definition discovered :: "env \<Rightarrow> string list option" where
  "discovered env =
     (if \<not> no_files (html_keys env) then html_keys env
      else if \<not> no_files (first_keys env (endpoints s3_base_url))
        then first_keys env (endpoints s3_base_url)
      else listing_keys env storage_base_url)"

definition discovery_requests :: "env \<Rightarrow> request list" where
  "discovery_requests env =
     html_requests env @
     (if \<not> no_files (html_keys env) then []
      else map (\<lambda>e. (e, [])) (queried env (endpoints s3_base_url)) @
           (if \<not> no_files (first_keys env (endpoints s3_base_url)) then []
            else [(storage_base_url, prefix_params)]))"

section \<open>Concrete environments\<close>

definition empty_world :: "'m world" where
  "empty_world = \<lparr>files = Map.empty, dirs = {}, requests = [], console = [], clock = 0\<rparr>"

definition ok_response :: "string list \<Rightarrow> response" where
  "ok_response cs = \<lparr>status_code = 200, content_length = Absent, chunks = cs, stream_error = False\<rparr>"

text \<open>A bucket whose listing has three keys, two of them \<^verbatim>\<open>.bz2\<close> files.\<close>

definition listing_env :: env where
  "listing_env =
     \<lparr>http = (\<lambda>rq. if rq = (''https://b/'', [(''prefix'', ''bulk-data/'')])
                    then Some (ok_response [''<R><Key>a.bz2</Key><Key>b.txt</Key>'',
                                            ''<Key>c/d.bz2</Key></R>''])
                    else None),
      html_anchors = (\<lambda>page. Some []),
      urljoin = (\<lambda>base href. Some (base @ href)),
      os_fault = (\<lambda>t. None),
      torn = (\<lambda>t. 0),
      stdin_line = ''y''\<rparr>"

text \<open>
  A small tree host: the root page lists itself, a reporter \<^verbatim>\<open>a/\<close>, an anchor without
  \<^verbatim>\<open>href\<close>, a metadata entry and a file; the reporter page lists two archives and a text
  file.  The first archive arrives whole, the stream of the second one breaks.  Two more
  pages answer with the status 404 and 300.
\<close>

definition tree_env :: env where
  "tree_env =
     \<lparr>http = (\<lambda>rq.
         if rq = (''https://h/'', []) then Some (ok_response [''ROOT''])
         else if rq = (''https://h/a/'', []) then Some (ok_response [''DIR-A''])
         else if rq = (''https://h/a/a.tar'', []) then Some (ok_response [''AAA'', [], ''A''])
         else if rq = (''https://h/a/b.tar'', [])
           then Some \<lparr>status_code = 200, content_length = Numeric 5, chunks = [''BB''],
                       stream_error = True\<rparr>
         else if rq = (''https://h/gone/'', [])
           then Some \<lparr>status_code = 404, content_length = Absent, chunks = [''DIR-A''],
                       stream_error = False\<rparr>
         else if rq = (''https://h/cached/'', [])
           then Some \<lparr>status_code = 300, content_length = Absent, chunks = [''DIR-A''],
                       stream_error = False\<rparr>
         else None),
      html_anchors = (\<lambda>page.
         if page = ''ROOT''
           then Some [Some [], Some ''a/'', None, Some ''meta.json/'', Some ''f.tar'']
         else if page = ''DIR-A'' then Some [Some ''a.tar'', Some ''b.tar'', Some ''notes.txt'']
         else Some []),
      urljoin = (\<lambda>base href. Some (base @ href)),
      os_fault = (\<lambda>t. None),
      torn = (\<lambda>t. 0),
      stdin_line = ''y''\<rparr>"

definition tree_crawler :: crawler where
  "tree_crawler = \<lparr>base_url = ''https://h/'', output_dir = ''out'', downloaded_count = 0,
                    failed_count = 0, skipped_count = 0\<rparr>"

text \<open>
  The same host with a disk that fails at the third call (after the opening and the first
  write of the first file), three bytes being on disk then.
\<close>

definition small_disk_env :: env where
  "small_disk_env =
     tree_env\<lparr>os_fault := (\<lambda>t. if t = 2 then Some SystemFailure else None), torn := (\<lambda>t. 3)\<rparr>"


text \<open>A disk on which the first archive is already there.\<close>

definition old_world :: "caselaw_msg world" where
  "old_world = \<lparr>files = [''out/a/a.tar'' \<mapsto> ''old''], dirs = {''out/a''}, requests = [],
                   console = [], clock = 0\<rparr>"

text \<open>
  An object store.  The HTML page names the bucket \<^verbatim>\<open>demo\<close>, whose listing has no
  \<^verbatim>\<open>.bz2\<close> key; the first alternate answers with an error status, the second and the
  third with keys, and so does the storage endpoint.  Of the two files the first can be
  fetched.
\<close>

definition bucket_env :: env where
  "bucket_env =
     \<lparr>http = (\<lambda>rq.
         if rq = (list_url, []) then Some (ok_response [''var BUCKET_NAME = \"demo\";''])
         else if rq = (''https://demo.s3-us-west-2.amazonaws.com/'', [(''prefix'', ''bulk-data/'')])
           then Some (ok_response [''<Key>readme.txt</Key>''])
         else if rq = (s3_base_url @ ''?list-type=2&prefix=bulk-data/'', [])
           then Some \<lparr>status_code = 500, content_length = Absent,
                       chunks = [''<Key>x.bz2</Key>''], stream_error = False\<rparr>
         else if rq = (s3_base_url @ ''?prefix=bulk-data/'', [])
           then Some (ok_response [''<Key>bulk-data/a.bz2</Key><Key>n.txt</Key>'',
                                   ''<Key>bulk-data/b.bz2</Key>''])
         else if rq = (s3_base_url @ ''?delimiter=/&prefix=bulk-data/'', [])
           then Some (ok_response [''<Key>z.bz2</Key>''])
         else if rq = (storage_base_url, [(''prefix'', ''bulk-data/'')])
           then Some (ok_response [''<Key>w.bz2</Key>''])
         else if rq = (s3_base_url @ ''bulk-data/a.bz2'', []) then Some (ok_response [''AA''])
         else None),
      html_anchors = (\<lambda>page. Some []),
      urljoin = (\<lambda>base href. Some (base @ href)),
      os_fault = (\<lambda>t. None),
      torn = (\<lambda>t. 0),
      stdin_line = ''y''\<rparr>"

text \<open>An object store of which only the storage endpoint lists the keys.\<close>

definition storage_env :: env where
  "storage_env =
     \<lparr>http = (\<lambda>rq.
         if rq = (storage_base_url, [(''prefix'', ''bulk-data/'')])
           then Some (ok_response [''<Key>bulk-data/a.bz2</Key>''])
         else if rq = (s3_base_url @ ''bulk-data/a.bz2'', []) then Some (ok_response [''AA''])
         else None),
      html_anchors = (\<lambda>page. Some []),
      urljoin = (\<lambda>base href. Some (base @ href)),
      os_fault = (\<lambda>t. None),
      torn = (\<lambda>t. 0),
      stdin_line = ''Y''\<rparr>"

definition fetched_world :: "bucket_msg world" where
  "fetched_world =
     \<lparr>files = [''courtlistener_downloads/a.bz2'' \<mapsto> ''old''], dirs = {''courtlistener_downloads''},
      requests = [], console = [], clock = 0\<rparr>"

text \<open>
  The tree host seen through a parser that rejects the reporter page and a \<^verbatim>\<open>urljoin\<close> that
  rejects the reference \<^verbatim>\<open>//[\<close>, which the root page now has.
\<close>

definition strict_env :: env where
  "strict_env =
     tree_env\<lparr>html_anchors := (\<lambda>page.
                 if page = ''ROOT'' then Some [Some ''a/'', Some ''//['', Some ''b/'']
                 else if page = ''DIR-A'' then None
                 else Some []),
               urljoin := (\<lambda>base href. if href = ''//['' then None else Some (base @ href))\<rparr>"

section \<open>Strings and the key pattern\<close>

lemma endswith_iff: "endswith s suf \<longleftrightarrow> (\<exists>p. s = p @ suf)"
proof -
  have "endswith s suf \<longleftrightarrow> suffix suf s"
    by (simp add: endswith_def suffix_to_prefix)
  then show ?thesis by (auto simp: suffix_def)
qed

lemma split_not_Nil: "split c s \<noteq> []"
  by (induction s) (auto split: list.splits)

lemma split_snoc_sep: "split c (xs @ [c]) = split c xs @ [[]]"
  by (induction xs) (auto split: list.splits simp: split_not_Nil)

lemma split_snoc_other:
  "x \<noteq> c \<Longrightarrow> split c (xs @ [x]) = butlast (split c xs) @ [last (split c xs) @ [x]]"
  by (induction xs) (auto split: list.splits simp: split_not_Nil)

lemma rstrip_snoc_sep: "rstrip c (xs @ [c]) = rstrip c xs"
  by (simp add: rstrip_def)

lemma rstrip_snoc_other: "x \<noteq> c \<Longrightarrow> rstrip c (xs @ [x]) = xs @ [x]"
  by (simp add: rstrip_def)

text \<open>The name the code derives is the final non-empty segment, when there is one.\<close>

lemma reporter_name_spec:
  "last_segment (rstrip (CHR ''/'') l) =
     (case final_nonempty_segment l of None \<Rightarrow> [] | Some name \<Rightarrow> name)"
proof (induction l rule: rev_induct)
  case Nil
  show ?case by (simp add: last_segment_def rstrip_def final_nonempty_segment_def)
next
  case (snoc x xs)
  show ?case
  proof (cases "x = CHR ''/''")
    case True
    then show ?thesis
      using snoc
      by (simp add: rstrip_snoc_sep split_snoc_sep final_nonempty_segment_def last_segment_def)
  next
    case False
    then show ?thesis
      by (simp add: rstrip_snoc_other split_snoc_other final_nonempty_segment_def
          last_segment_def)
  qed
qed

lemma final_nonempty_segment_nonempty: "final_nonempty_segment l = Some name \<Longrightarrow> name \<noteq> []"
proof -
  assume a: "final_nonempty_segment l = Some name"
  define segs where "segs = filter (\<lambda>seg. seg \<noteq> []) (split (CHR ''/'') l)"
  from a have "segs \<noteq> []" "name = last segs"
    by (auto simp: final_nonempty_segment_def segs_def Let_def split: if_splits)
  then have "name \<in> set segs" by simp
  then show ?thesis by (simp add: segs_def)
qed

lemma reporters_of_spec: "reporters_of root links = listReporters_spec root links"
proof (induction links)
  case Nil
  show ?case by (simp add: listReporters_spec_def)
next
  case (Cons l links)
  then have IH: "reporters_of root links = listReporters_spec root links" .
  show ?case
  proof (cases "final_nonempty_segment l")
    case None
    then show ?thesis
      using IH by (simp add: listReporters_spec_def reporter_name_spec)
  next
    case (Some name)
    then have "name \<noteq> []" by (rule final_nonempty_segment_nonempty)
    with Some show ?thesis
      using IH by (simp add: listReporters_spec_def reporter_name_spec)
  qed
qed

lemma no_segment_iff:
  "filter (\<lambda>seg. seg \<noteq> []) (split c l) = [] \<longleftrightarrow> set l \<subseteq> {c}"
  by (induction l) (auto split: list.splits simp: split_not_Nil)

text \<open>Only a link made of separators has no name.\<close>

lemma final_nonempty_segment_None_iff:
  "final_nonempty_segment l = None \<longleftrightarrow> set l \<subseteq> {CHR ''/''}"
  using no_segment_iff [of "CHR ''/''" l]
  by (simp add: final_nonempty_segment_def Let_def)

lemma takeWhile_upto: "x \<notin> set k \<Longrightarrow> takeWhile (\<lambda>y. y \<noteq> x) (k @ x # r) = k"
  by (induction k) auto

lemma dropWhile_upto: "x \<notin> set k \<Longrightarrow> dropWhile (\<lambda>y. y \<noteq> x) (k @ x # r) = x # r"
  by (induction k) auto

lemma match_key_Some_iff:
  "match_key s = Some (k, rest) \<longleftrightarrow> valid_key k \<and> s = key_tag k @ rest"
proof
  assume m: "match_key s = Some (k, rest)"
  then obtain t where s: "s = ''<Key>'' @ t"
    and k: "k = takeWhile (\<lambda>x. x \<noteq> CHR ''<'') t" and ne: "k \<noteq> []"
    and p: "prefix ''</Key>'' (dropWhile (\<lambda>x. x \<noteq> CHR ''<'') t)"
    and r: "rest = drop 6 (dropWhile (\<lambda>x. x \<noteq> CHR ''<'') t)"
    by (auto simp: match_key_def Let_def prefix_def split: if_splits)
  from p r have d: "dropWhile (\<lambda>x. x \<noteq> CHR ''<'') t = ''</Key>'' @ rest"
    by (auto simp: prefix_def)
  have "t = k @ ''</Key>'' @ rest"
    using takeWhile_dropWhile_id [of "\<lambda>x. x \<noteq> CHR ''<''" t] k d by simp
  moreover have "CHR ''<'' \<notin> set k"
    using k by (auto dest: set_takeWhileD)
  ultimately show "valid_key k \<and> s = key_tag k @ rest"
    using s ne by (simp add: valid_key_def key_tag_def)
next
  assume "valid_key k \<and> s = key_tag k @ rest"
  then have k: "k \<noteq> []" "CHR ''<'' \<notin> set k" and s: "s = ''<Key>'' @ k @ ''</Key>'' @ rest"
    by (simp_all add: valid_key_def key_tag_def)
  have tw: "takeWhile (\<lambda>x. x \<noteq> CHR ''<'') (k @ ''</Key>'' @ rest) = k"
    using k(2) by (simp add: takeWhile_upto)
  have dw: "dropWhile (\<lambda>x. x \<noteq> CHR ''<'') (k @ ''</Key>'' @ rest) = ''</Key>'' @ rest"
    using k(2) by (simp add: dropWhile_upto)
  show "match_key s = Some (k, rest)"
    unfolding match_key_def s using k(1) tw dw by (simp add: Let_def)
qed

lemma tag_free_tl: "tag_free (c # x) \<Longrightarrow> tag_free x"
  unfolding tag_free_def
proof (intro allI impI notI)
  fix a k b
  assume h: "\<forall>a k b. valid_key k \<longrightarrow> c # x \<noteq> a @ key_tag k @ b" and v: "valid_key k"
    and x: "x = a @ key_tag k @ b"
  from h v have "c # x \<noteq> (c # a) @ key_tag k @ b" by blast
  with x show False by simp
qed

lemma findall_tag_free: "tag_free x \<Longrightarrow> findall_keys x = []"
proof (induction x)
  case Nil
  show ?case by simp
next
  case (Cons c x)
  have "match_key (c # x) = None"
  proof (rule ccontr)
    assume "match_key (c # x) \<noteq> None"
    then obtain k rest where "match_key (c # x) = Some (k, rest)" by auto
    then have "valid_key k" "c # x = [] @ key_tag k @ rest"
      by (simp_all add: match_key_Some_iff)
    with Cons.prems show False unfolding tag_free_def by blast
  qed
  moreover have "findall_keys x = []"
    using Cons.IH Cons.prems tag_free_tl by blast
  ultimately show ?case by simp
qed

lemma tag_overlap:
  assumes v: "valid_key k" and e: "(c # p) @ ''<Key>'' @ y = key_tag k @ r"
  shows "\<exists>b. c # p = key_tag k @ b"
proof -
  from v have k: "CHR ''<'' \<notin> set k" by (simp add: valid_key_def)
  from e have "(c # p) @ (''<Key>'' @ y) = (''<Key>'' @ k) @ (''</Key>'' @ r)"
    by (simp add: key_tag_def)
  then obtain us where
    "(c # p = (''<Key>'' @ k) @ us \<and> us @ (''<Key>'' @ y) = ''</Key>'' @ r) \<or>
     ((c # p) @ us = ''<Key>'' @ k \<and> ''<Key>'' @ y = us @ (''</Key>'' @ r))"
    unfolding append_eq_append_conv2 by blast
  then show ?thesis
  proof
    assume a: "c # p = (''<Key>'' @ k) @ us \<and> us @ (''<Key>'' @ y) = ''</Key>'' @ r"
    then have "\<exists>b. us = ''</Key>'' @ b"
      by (auto simp: append_eq_Cons_conv)
    with a show ?thesis by (auto simp: key_tag_def)
  next
    assume a: "(c # p) @ us = ''<Key>'' @ k \<and> ''<Key>'' @ y = us @ (''</Key>'' @ r)"
    then have "us \<noteq> []" by auto
    with a obtain us' where us: "us = CHR ''<'' # us'"
      by (cases us) auto
    with a have "p @ CHR ''<'' # us' = ''Key>'' @ k" by simp
    then have "CHR ''<'' \<in> set (''Key>'' @ k)"
      by (metis in_set_conv_decomp)
    with k show ?thesis by simp
  qed
qed

lemma findall_skip:
  "tag_free pre \<Longrightarrow> findall_keys (pre @ ''<Key>'' @ y) = findall_keys (''<Key>'' @ y)"
proof (induction pre)
  case Nil
  show ?case by simp
next
  case (Cons c p)
  have "match_key ((c # p) @ ''<Key>'' @ y) = None"
  proof (rule ccontr)
    assume "match_key ((c # p) @ ''<Key>'' @ y) \<noteq> None"
    then obtain k rest where "match_key ((c # p) @ ''<Key>'' @ y) = Some (k, rest)" by auto
    then have "valid_key k" "(c # p) @ ''<Key>'' @ y = key_tag k @ rest"
      by (simp_all add: match_key_Some_iff)
    then obtain b where "c # p = [] @ key_tag k @ b"
      using tag_overlap by fastforce
    with \<open>valid_key k\<close> Cons.prems show False unfolding tag_free_def by blast
  qed
  moreover have "findall_keys (p @ ''<Key>'' @ y) = findall_keys (''<Key>'' @ y)"
    using Cons.IH Cons.prems tag_free_tl by blast
  ultimately show ?case by simp
qed

lemma findall_key_tag:
  assumes v: "valid_key k"
  shows "findall_keys (key_tag k @ rest) = k # findall_keys rest"
proof -
  define x where "x = ''Key>'' @ k @ ''</Key>'' @ rest"
  have e: "key_tag k @ rest = CHR ''<'' # x"
    by (simp add: x_def key_tag_def)
  have "match_key (CHR ''<'' # x) = Some (k, rest)"
    using v by (simp add: match_key_Some_iff e [symmetric])
  then have "findall_keys (CHR ''<'' # x) = k # findall_keys rest"
    by simp
  then show ?thesis by (simp only: e)
qed

lemma findall_listing_body:
  "\<lbrakk>\<forall>(pre, k) \<in> set segs. tag_free pre \<and> valid_key k; tag_free tail\<rbrakk>
   \<Longrightarrow> findall_keys (listing_body segs tail) = map snd segs"
proof (induction segs)
  case Nil
  then show ?case by (simp add: findall_tag_free)
next
  case (Cons seg segs)
  obtain pre k where seg: "seg = (pre, k)" by (cases seg)
  with Cons.prems have pre: "tag_free pre" and k: "valid_key k" by auto
  have "findall_keys (pre @ key_tag k @ listing_body segs tail)
        = findall_keys (key_tag k @ listing_body segs tail)"
    using findall_skip [OF pre, of "k @ ''</Key>'' @ listing_body segs tail"]
    by (simp add: key_tag_def)
  also have "\<dots> = k # findall_keys (listing_body segs tail)"
    using k by (rule findall_key_tag)
  also have "findall_keys (listing_body segs tail) = map snd segs"
    using Cons by simp
  finally show ?case by (simp add: seg)
qed

lemma tag_free_Nil: "tag_free []"
  by (simp add: tag_free_def key_tag_def)

lemma tag_free_Cons:
  assumes pre: "tag_free pre" and m: "match_key (c # pre @ z) = None"
  shows "tag_free (c # pre)"
  unfolding tag_free_def
proof (intro allI impI notI)
  fix a k b
  assume v: "valid_key k" and e: "c # pre = a @ key_tag k @ b"
  show False
  proof (cases a)
    case Nil
    with e have "c # pre @ z = key_tag k @ (b @ z)" by simp
    with v have "match_key (c # pre @ z) = Some (k, b @ z)"
      by (simp only: match_key_Some_iff)
    with m show False by simp
  next
    case (Cons c' a')
    with e have "pre = a' @ key_tag k @ b" by simp
    with pre v show False unfolding tag_free_def by blast
  qed
qed

text \<open>Every text is laid out in this way, so the layout covers every response body.\<close>

lemma body_decomposition:
  "\<exists>segs tail. s = listing_body segs tail \<and>
     (\<forall>(pre, k) \<in> set segs. tag_free pre \<and> valid_key k) \<and> tag_free tail"
proof (induction s rule: findall_keys.induct)
  case 1
  have "[] = listing_body [] [] \<and>
     (\<forall>(pre, k) \<in> set []. tag_free pre \<and> valid_key k) \<and> tag_free []"
    by (simp add: tag_free_Nil)
  then show ?case by blast
next
  case (2 c cs)
  show ?case
  proof (cases "match_key (c # cs)")
    case None
    with 2 obtain segs tail where cs: "cs = listing_body segs tail"
      and ok: "\<forall>(pre, k) \<in> set segs. tag_free pre \<and> valid_key k" and tl: "tag_free tail"
      by blast
    show ?thesis
    proof (cases segs)
      case Nil
      with cs None tl have "tag_free (c # tail)"
        using tag_free_Cons [of tail c "[]"] by simp
      with Nil cs have "c # cs = listing_body [] (c # tail) \<and>
        (\<forall>(pre, k) \<in> set []. tag_free pre \<and> valid_key k) \<and> tag_free (c # tail)"
        by simp
      then show ?thesis by blast
    next
      case (Cons seg segs')
      obtain pre k where seg: "seg = (pre, k)" by (cases seg)
      from ok Cons seg have pre: "tag_free pre" and k: "valid_key k" by auto
      from cs Cons seg None have "match_key (c # pre @ key_tag k @ listing_body segs' tail) = None"
        by simp
      with pre have "tag_free (c # pre)" by (rule tag_free_Cons)
      with ok Cons seg k cs tl have "c # cs = listing_body ((c # pre, k) # segs') tail \<and>
        (\<forall>(pre, k) \<in> set ((c # pre, k) # segs'). tag_free pre \<and> valid_key k) \<and> tag_free tail"
        by simp
      then show ?thesis by blast
    qed
  next
    case (Some m)
    obtain k rest where m: "m = (k, rest)" by (cases m)
    with Some have k: "valid_key k" and e: "c # cs = key_tag k @ rest"
      by (simp_all add: match_key_Some_iff)
    from 2(2) [OF Some m [symmetric]] obtain segs tail where rest: "rest = listing_body segs tail"
      and ok: "\<forall>(pre, k) \<in> set segs. tag_free pre \<and> valid_key k" and tl: "tag_free tail"
      by blast
    from e rest k ok tl have "c # cs = listing_body (([], k) # segs) tail \<and>
        (\<forall>(pre, k) \<in> set (([], k) # segs). tag_free pre \<and> valid_key k) \<and> tag_free tail"
      by (simp add: tag_free_Nil)
    then show ?thesis by blast
  qed
qed

lemma tag_free_iff: "tag_free x \<longleftrightarrow> findall_keys x = []"
proof
  assume "tag_free x"
  then show "findall_keys x = []" by (rule findall_tag_free)
next
  assume e: "findall_keys x = []"
  obtain segs tail where x: "x = listing_body segs tail"
    and ok: "\<forall>(pre, k) \<in> set segs. tag_free pre \<and> valid_key k" and tl: "tag_free tail"
    using body_decomposition by blast
  from findall_listing_body [OF ok tl] x e have "segs = []" by simp
  with x tl show "tag_free x" by simp
qed

section \<open>Files, requests and one transfer\<close>

lemma say_files [simp]: "files (say m w) = files w"
  and say_dirs [simp]: "dirs (say m w) = dirs w"
  and say_requests [simp]: "requests (say m w) = requests w"
  and say_console [simp]: "console (say m w) = console w @ [m]"
  and say_clock [simp]: "clock (say m w) = clock w"
  by (simp_all add: say_def)

lemma tick_simps [simp]:
  "files (tick w) = files w"
  "dirs (tick w) = dirs w"
  "requests (tick w) = requests w"
  "console (tick w) = console w"
  "clock (tick w) = Suc (clock w)"
  by (simp_all add: tick_def)

lemma exists_path_say [simp]: "exists_path (say m w) p = exists_path w p"
  by (simp add: exists_path_def)

lemma fault_at_say [simp]: "fault_at env (say m w) = fault_at env w"
  by (simp add: fault_at_def)

lemma fault_at_not_RequestException [simp]: "fault_at env w \<noteq> Some RequestException"
  by (simp add: fault_at_def raised_by_def split: option.splits os_failure.splits)

lemma no_os_fault_fault_at: "no_os_fault env \<Longrightarrow> fault_at env w = None"
  by (simp add: no_os_fault_def fault_at_def)

text \<open>What each call on the file system leaves as it is, and what it never raises.\<close>

lemma mkdir_frame [simp]:
  "files (snd (mkdir env d w)) = files w"
  "requests (snd (mkdir env d w)) = requests w"
  by (simp_all add: mkdir_def split: option.splits)


lemma mkdir_ok:
  "\<lbrakk>no_os_fault env; \<not> embedded_null d; files w d = None\<rbrakk>
   \<Longrightarrow> mkdir env d w = (Returned (), tick (w\<lparr>dirs := insert d (dirs w)\<rparr>))"
  by (simp add: mkdir_def no_os_fault_fault_at insert_absorb)

lemma remove_path_frame [simp]:
  "requests (snd (remove_path env p w)) = requests w"
  "console (snd (remove_path env p w)) = console w"
  "dirs (snd (remove_path env p w)) = dirs w"
  by (simp_all add: remove_path_def split: option.splits)

lemma remove_path_other:
  "q \<noteq> p \<Longrightarrow> files (snd (remove_path env p w)) q = files w q"
  by (simp add: remove_path_def split: option.splits)


lemma remove_path_Returned:
  "fst (remove_path env p w) = Returned u \<Longrightarrow> \<not> exists_path (snd (remove_path env p w)) p"
  by (auto simp: remove_path_def exists_path_def split: option.splits if_splits)

lemma writable_say [simp]: "writable (say m w) p = writable w p"
  by (simp add: writable_def)

lemma remove_path_ok:
  "\<lbrakk>no_os_fault env; writable w p; files w p \<noteq> None\<rbrakk>
   \<Longrightarrow> remove_path env p w = (Returned (), tick (w\<lparr>files := (files w)(p := None)\<rparr>))"
  by (simp add: remove_path_def writable_def no_os_fault_fault_at)

lemma open_wb_frame [simp]:
  "requests (snd (open_wb env p w)) = requests w"
  "console (snd (open_wb env p w)) = console w"
  "dirs (snd (open_wb env p w)) = dirs w"
  by (simp_all add: open_wb_def split: option.splits)

lemma open_wb_other:
  "q \<noteq> p \<Longrightarrow> files (snd (open_wb env p w)) q = files w q"
  by (simp add: open_wb_def split: option.splits)

lemma open_wb_not_RequestException: "fst (open_wb env p w) \<noteq> Raised RequestException"
  using fault_at_not_RequestException [of env w]
  by (auto simp: open_wb_def split: option.splits)

lemma open_wb_ok:
  "\<lbrakk>no_os_fault env; writable w p\<rbrakk>
   \<Longrightarrow> open_wb env p w = (Returned (), tick (w\<lparr>files := (files w)(p \<mapsto> [])\<rparr>))"
  by (simp add: open_wb_def writable_def no_os_fault_fault_at)

lemma f_write_frame [simp]:
  "requests (snd (f_write env p c w)) = requests w"
  "console (snd (f_write env p c w)) = console w"
  "dirs (snd (f_write env p c w)) = dirs w"
  by (simp_all add: f_write_def Let_def split: option.splits)

lemma f_write_other:
  "q \<noteq> p \<Longrightarrow> files (snd (f_write env p c w)) q = files w q"
  by (simp add: f_write_def Let_def split: option.splits)

lemma f_write_ok:
  "\<lbrakk>no_os_fault env; files w p = Some old\<rbrakk>
   \<Longrightarrow> f_write env p c w = (Returned (), tick (w\<lparr>files := (files w)(p \<mapsto> old @ c)\<rparr>))"
  by (simp add: f_write_def no_os_fault_fault_at)

lemma f_close_frame [simp]:
  "requests (snd (f_close env p w)) = requests w"
  "console (snd (f_close env p w)) = console w"
  "dirs (snd (f_close env p w)) = dirs w"
  by (simp_all add: f_close_def split: option.splits)

lemma f_close_other:
  "q \<noteq> p \<Longrightarrow> files (snd (f_close env p w)) q = files w q"
  by (simp add: f_close_def split: option.splits)

lemma f_close_not_RequestException: "fst (f_close env p w) \<noteq> Raised RequestException"
  using fault_at_not_RequestException [of env w]
  by (auto simp: f_close_def split: option.splits)

lemma f_close_ok: "no_os_fault env \<Longrightarrow> f_close env p w = (Returned (), tick w)"
  by (simp add: f_close_def no_os_fault_fault_at)

lemma write_chunks_frame:
  "requests (snd (write_chunks env pr p t d cs b w)) = requests w \<and>
   dirs (snd (write_chunks env pr p t d cs b w)) = dirs w \<and>
   (\<forall>q. q \<noteq> p \<longrightarrow> files (snd (write_chunks env pr p t d cs b w)) q = files w q)"
proof (induction cs arbitrary: d w)
  case Nil
  show ?case by simp
next
  case (Cons c cs)
  show ?case
  proof (cases "c = []")
    case True
    then show ?thesis using Cons by simp
  next
    case False
    let ?w1 = "snd (f_write env p c w)"
    have fr: "requests ?w1 = requests w" "dirs ?w1 = dirs w"
      "\<forall>q. q \<noteq> p \<longrightarrow> files ?w1 q = files w q"
      by (simp_all add: f_write_other)
    show ?thesis
    proof (cases "fst (f_write env p c w)")
      case (Raised e)
      with False fr show ?thesis by (simp add: case_prod_beta)
    next
      case (Returned u)
      with False fr Cons [of "d + length c" "say (pr (d + length c) t) ?w1"]
        Cons [of "d + length c" ?w1]
      show ?thesis by (simp add: Let_def case_prod_beta)
    qed
  qed
qed

lemma write_chunks_requests [simp]:
  "requests (snd (write_chunks env pr p t d cs b w)) = requests w"
  using write_chunks_frame by blast

lemma write_chunks_dirs [simp]:
  "dirs (snd (write_chunks env pr p t d cs b w)) = dirs w"
  using write_chunks_frame by blast

lemma write_chunks_files_other:
  "q \<noteq> p \<Longrightarrow> files (snd (write_chunks env pr p t d cs b w)) q = files w q"
  using write_chunks_frame by blast

lemma progress_overflows_mono:
  "\<lbrakk>progress_overflows d t; d \<le> d'\<rbrakk> \<Longrightarrow> progress_overflows d' t"
  by (auto simp: progress_overflows_def true_div_overflows_def)

text \<open>
  Without a fault and without an overflow the whole stream is written, and only a broken
  stream raises.
\<close>

lemma write_chunks_ok:
  assumes nf: "no_os_fault env"
  shows "\<lbrakk>files w p = Some old; t \<le> 0 \<or> \<not> progress_overflows (d + length (concat cs)) t\<rbrakk>
   \<Longrightarrow> fst (write_chunks env pr p t d cs b w) = (if b then Raised RequestException else Returned ())
     \<and> files (snd (write_chunks env pr p t d cs b w)) p = Some (old @ concat cs)"
proof (induction cs arbitrary: d w old)
  case Nil
  then show ?case by simp
next
  case (Cons c cs)
  show ?case
  proof (cases "c = []")
    case True
    then show ?thesis using Cons.IH [of w old d] Cons.prems by simp
  next
    case False
    define w1 where "w1 = tick (w\<lparr>files := (files w)(p \<mapsto> old @ c)\<rparr>)"
    have fw: "f_write env p c w = (Returned (), w1)"
      unfolding w1_def using nf Cons.prems(1) by (rule f_write_ok)
    have f1: "files w1 p = Some (old @ c)" "files (say (pr (d + length c) t) w1) p = Some (old @ c)"
      by (simp_all add: w1_def)
    have ov: "t \<le> 0 \<or> \<not> progress_overflows (d + length c + length (concat cs)) t"
      using Cons.prems(2) by (simp add: add.assoc)
    have now: "0 < t \<Longrightarrow> \<not> progress_overflows (d + length c) t"
      using ov progress_overflows_mono [of "d + length c" t "d + length c + length (concat cs)"]
      by auto
    from Cons.IH [OF f1(1) ov] Cons.IH [OF f1(2) ov] now
    show ?thesis using False fw by (cases b) (simp_all add: Let_def)
  qed
qed

lemma save_stream_frame:
  "requests (snd (save_stream env pr p t r w)) = requests w"
  "dirs (snd (save_stream env pr p t r w)) = dirs w"
  "q \<noteq> p \<Longrightarrow> files (snd (save_stream env pr p t r w)) q = files w q"
  unfolding save_stream_def
  by (simp_all add: case_prod_beta open_wb_other f_close_other write_chunks_files_other
      split: result.splits)

lemma save_stream_ok:
  assumes "no_os_fault env" and "writable w p"
    and "t \<le> 0 \<or> \<not> progress_overflows (length (concat (chunks r))) t"
  shows "fst (save_stream env pr p t r w) =
           (if stream_error r then Raised RequestException else Returned ())"
    and "files (snd (save_stream env pr p t r w)) p = Some (concat (chunks r))"
proof -
  let ?w1 = "tick (w\<lparr>files := (files w)(p \<mapsto> [])\<rparr>)"
  have o: "open_wb env p w = (Returned (), ?w1)"
    using assms(1,2) by (rule open_wb_ok)
  have f: "files ?w1 p = Some []" by simp
  have ov: "t \<le> 0 \<or> \<not> progress_overflows (0 + length (concat (chunks r))) t"
    using assms(3) by simp
  note wc = write_chunks_ok [OF assms(1) f ov, of pr "stream_error r"]
  show "fst (save_stream env pr p t r w) =
           (if stream_error r then Raised RequestException else Returned ())"
    unfolding save_stream_def using wc
    by (simp add: o case_prod_beta f_close_ok [OF assms(1)])
  show "files (snd (save_stream env pr p t r w)) p = Some (concat (chunks r))"
    unfolding save_stream_def using wc
    by (simp add: o case_prod_beta f_close_ok [OF assms(1)])
qed

lemma requests_get_stream_simps [simp]:
  "requests (snd (requests_get_stream env rq w)) = requests w @ [rq]"
  "files (snd (requests_get_stream env rq w)) = files w"
  "dirs (snd (requests_get_stream env rq w)) = dirs w"
  "console (snd (requests_get_stream env rq w)) = console w"
  "clock (snd (requests_get_stream env rq w)) = clock w"
  "fst (requests_get_stream env rq w) =
     (case http env rq of None \<Rightarrow> Raised RequestException | Some r \<Rightarrow> Returned r)"
  by (simp_all add: requests_get_stream_def Let_def split: option.splits)

lemma requests_get_simps [simp]:
  "requests (snd (requests_get env rq w)) = requests w @ [rq]"
  "files (snd (requests_get env rq w)) = files w"
  "dirs (snd (requests_get env rq w)) = dirs w"
  "console (snd (requests_get env rq w)) = console w"
  "clock (snd (requests_get env rq w)) = clock w"
  "fst (requests_get env rq w) =
     (case http env rq of None \<Rightarrow> Raised RequestException
      | Some r \<Rightarrow> if stream_error r then Raised RequestException else Returned r)"
  by (simp_all add: requests_get_def Let_def split: option.splits)

lemma exists_path_requests_get [simp]:
  "exists_path (snd (requests_get env rq w)) p = exists_path w p"
  "exists_path (snd (requests_get_stream env rq w)) p = exists_path w p"
  by (simp_all add: exists_path_def)

lemma download_attempt_frame:
  "requests (snd (download_attempt env u p w)) = requests w @ [(u, [])]"
  "dirs (snd (download_attempt env u p w)) = dirs w"
  "q \<noteq> p \<Longrightarrow> files (snd (download_attempt env u p w)) q = files w q"
  unfolding download_attempt_def
  by (simp_all add: case_prod_beta save_stream_frame split: result.splits option.splits)

lemma download_file_frame:
  "requests (snd (download_file env u p w)) = requests w @ [(u, [])]"
  "dirs (snd (download_file env u p w)) = dirs w"
  "q \<noteq> p \<Longrightarrow> files (snd (download_file env u p w)) q = files w q"
  unfolding download_file_def
  by (simp_all add: case_prod_beta download_attempt_frame remove_path_other Let_def
      split: result.splits)


lemma download_attempt_True:
  "fst (download_attempt env u p w) = Returned b \<Longrightarrow> b"
  unfolding download_attempt_def
  by (simp add: case_prod_beta split: result.splits option.splits if_splits)

lemma download_file_False:
  "fst (download_file env u p w) = Returned False
   \<Longrightarrow> \<not> exists_path (snd (download_file env u p w)) p"
  unfolding download_file_def
  by (auto simp: case_prod_beta Let_def split: result.splits if_splits
      dest: download_attempt_True remove_path_Returned)

text \<open>
  A transfer that fails: the attempt raises \<^verbatim>\<open>RequestException\<close>, and the method returns
  \<^verbatim>\<open>False\<close> with the destination gone, provided the destination is not a directory and the
  file system does what it is asked.
\<close>

lemma download_attempt_fails:
  assumes "transfer_fails env u" and "no_os_fault env" and "writable w p"
  shows "fst (download_attempt env u p w) = Raised RequestException"
proof (cases "http env (u, [])")
  case None
  then show ?thesis
    unfolding download_attempt_def by (simp add: case_prod_beta)
next
  case (Some r)
  show ?thesis
  proof (cases "http_error r")
    case True
    with Some show ?thesis
      unfolding download_attempt_def by (simp add: case_prod_beta)
  next
    case False
    with Some assms(1) have b: "stream_error r" and ok: "progress_ok r"
      by (simp_all add: transfer_fails_def)
    from ok obtain t where t: "total_size_of r = Returned t"
      and ov: "t \<le> 0 \<or> \<not> progress_overflows (length (concat (chunks r))) t"
      by (auto simp: progress_ok_def split: result.splits)
    have d: "writable (snd (requests_get_stream env (u, []) w)) p"
      using assms(3) by (simp add: writable_def)
    show ?thesis
      unfolding download_attempt_def using Some False t b
      by (simp add: case_prod_beta save_stream_ok(1) [OF assms(2) d ov])
  qed
qed

lemma download_file_fails:
  assumes "transfer_fails env u" and "no_os_fault env" and "writable w p"
  shows "fst (download_file env u p w) = Returned False"
    and "\<not> exists_path (snd (download_file env u p w)) p"
    and "last (console (snd (download_file env u p w))) = ErrorDownloading"
proof -
  let ?a = "download_attempt env u p w"
  let ?w2 = "say ErrorDownloading (snd ?a)"
  have a: "fst ?a = Raised RequestException"
    using assms by (rule download_attempt_fails)
  have d: "writable ?w2 p"
    using assms(3) by (simp add: writable_def download_attempt_frame)
  have rm: "exists_path ?w2 p \<Longrightarrow>
      remove_path env p ?w2 = (Returned (), tick (?w2\<lparr>files := (files ?w2)(p := None)\<rparr>))"
    using d by (intro remove_path_ok [OF assms(2)]) (auto simp: exists_path_def writable_def)
  show r: "fst (download_file env u p w) = Returned False"
    unfolding download_file_def using a rm
    by (simp add: case_prod_beta Let_def)
  then show "\<not> exists_path (snd (download_file env u p w)) p"
    by (rule download_file_False)
  show "last (console (snd (download_file env u p w))) = ErrorDownloading"
    unfolding download_file_def using a rm
    by (simp add: case_prod_beta Let_def)
qed

lemma download_file_succeeds:
  assumes "transfer_succeeds env u" and "no_os_fault env" and "writable w p"
  shows "fst (download_file env u p w) = Returned True"
    and "files (snd (download_file env u p w)) p = Some (body_of env u)"
proof -
  from assms(1) obtain r where r: "http env (u, []) = Some r" and e: "\<not> http_error r"
    and b: "\<not> stream_error r" and ok: "progress_ok r"
    by (auto simp: transfer_succeeds_def split: option.splits)
  from ok obtain t where t: "total_size_of r = Returned t"
    and ov: "t \<le> 0 \<or> \<not> progress_overflows (length (concat (chunks r))) t"
    by (auto simp: progress_ok_def split: result.splits)
  have d: "writable (snd (requests_get_stream env (u, []) w)) p"
    using assms(3) by (simp add: writable_def)
  show "fst (download_file env u p w) = Returned True"
    unfolding download_file_def download_attempt_def using r e t b
    by (simp add: case_prod_beta save_stream_ok(1) [OF assms(2) d ov])
  show "files (snd (download_file env u p w)) p = Some (body_of env u)"
    unfolding download_file_def download_attempt_def body_of_def
    using r e t b
    by (simp add: case_prod_beta save_stream_ok [OF assms(2) d ov])
qed

text \<open>Sizes far below the limit of the floats cannot overflow.\<close>

lemma float_limit_bound: "2 ^ 1000 \<le> float_limit"
  by (simp add: float_limit_def)

lemma progress_overflows_small:
  assumes "0 < t" and "t < 2 ^ 1000" and "int d < 2 ^ 1000"
  shows "\<not> progress_overflows d t"
proof -
  define B :: int where "B = 2 ^ 1000"
  have B: "B \<le> float_limit" unfolding B_def by (rule float_limit_bound)
  have pos: "0 < B" unfolding B_def by simp
  have t: "t < B" "int d < B" using assms(2,3) unfolding B_def by blast+
  have "float_limit * 1 \<le> float_limit * t"
    using assms(1) B pos by (intro mult_left_mono) linarith+
  then have a: "float_limit \<le> float_limit * t" by (simp only: mult_1_right)
  show ?thesis
    unfolding progress_overflows_def true_div_overflows_def
    using a t B pos by linarith
qed

section \<open>The tree-host crawl\<close>



text \<open>When every reference can be joined, the loop returns them all, joined, in order.\<close>

lemma join_hrefs_Returned:
  "\<forall>h \<in> set hs. urljoin env u h \<noteq> None
   \<Longrightarrow> join_hrefs env u hs = Returned (map (\<lambda>h. the (urljoin env u h)) hs)"
  by (induction hs) auto

lemma join_hrefs_Raised:
  "\<exists>h \<in> set hs. urljoin env u h = None \<Longrightarrow> join_hrefs env u hs = Raised ValueError"
proof (induction hs)
  case Nil
  then show ?case by simp
next
  case (Cons h hs)
  show ?case
  proof (cases "urljoin env u h")
    case None
    then show ?thesis by simp
  next
    case (Some full)
    with Cons.prems have "\<exists>h \<in> set hs. urljoin env u h = None" by auto
    with Cons.IH Some show ?thesis by simp
  qed
qed

lemma get_page_links_snd [simp]:
  "files (snd (get_page_links env u w)) = files w"
  "dirs (snd (get_page_links env u w)) = dirs w"
  "requests (snd (get_page_links env u w)) = requests w @ [(u, [])]"
  unfolding get_page_links_def
  by (simp_all add: case_prod_beta split: option.splits result.splits)


lemma get_page_links_nonempty:
  "page_links env u \<noteq> [] \<Longrightarrow> fst (get_page_links env u w) = Returned (page_links env u)"
  unfolding get_page_links_def page_links_def
  by (auto simp: case_prod_beta split: option.splits result.splits if_splits)


lemma get_tar_files_snd [simp]:
  "files (snd (get_tar_files env u w)) = files w"
  "dirs (snd (get_tar_files env u w)) = dirs w"
  "requests (snd (get_tar_files env u w)) = requests w @ [(u, [])]"
  unfolding get_tar_files_def
  by (simp_all add: case_prod_beta split: result.splits)


lemma get_tar_files_nonempty:
  "tar_links env u \<noteq> [] \<Longrightarrow> fst (get_tar_files env u w) = Returned (tar_links env u)"
proof -
  assume "tar_links env u \<noteq> []"
  then have "page_links env u \<noteq> []" by (auto simp: tar_links_def)
  then show ?thesis
    unfolding get_tar_files_def tar_links_def
    by (simp add: case_prod_beta get_page_links_nonempty)
qed


lemma get_reporter_directories_snd [simp]:
  "files (snd (get_reporter_directories env self w)) = files w"
  "dirs (snd (get_reporter_directories env self w)) = dirs w"
  "requests (snd (get_reporter_directories env self w)) = requests w @ [(base_url self, [])]"
  unfolding get_reporter_directories_def
  by (simp_all add: case_prod_beta split: result.splits)


lemma get_reporter_directories_nonempty:
  "reporters_of (base_url self) (page_links env (base_url self)) \<noteq> []
   \<Longrightarrow> fst (get_reporter_directories env self w) =
         Returned (reporters_of (base_url self) (page_links env (base_url self)))"
proof -
  assume "reporters_of (base_url self) (page_links env (base_url self)) \<noteq> []"
  then have "page_links env (base_url self) \<noteq> []" by auto
  then show ?thesis
    unfolding get_reporter_directories_def
    by (simp add: case_prod_beta get_page_links_nonempty)
qed


text \<open>A file that exists is kept by one download in the loop, and by the whole loop.\<close>

lemma download_tars_keeps:
  "files w p = Some c \<Longrightarrow> files (snd (snd (download_tars env dir n i us self w))) p = Some c"
proof (induction us arbitrary: i self w)
  case Nil
  then show ?case by simp
next
  case (Cons u us)
  let ?out = "path_join dir (last_segment u)"
  show ?case
  proof (cases "exists_path w ?out")
    case True
    then show ?thesis
      using Cons.IH [of "say (Skipping i n (last_segment u)) w"] Cons.prems
      by (simp add: Let_def)
  next
    case False
    with Cons.prems have ne: "p \<noteq> ?out" by (auto simp: exists_path_def)
    let ?d = "download_file env u ?out (say (Downloading i n (last_segment u)) w)"
    have k: "files (snd ?d) p = Some c"
      using download_file_frame(3) [OF ne] Cons.prems by simp
    show ?thesis
    proof (cases "fst ?d")
      case (Raised e)
      with False k show ?thesis by (simp add: Let_def case_prod_beta)
    next
      case (Returned ok)
      with False k Cons.IH [of "say (Completed (last_segment u)) (snd ?d)"]
        Cons.IH [of "say (Failed (last_segment u)) (snd ?d)"]
      show ?thesis by (simp add: Let_def case_prod_beta)
    qed
  qed
qed

lemma process_reporters_keeps:
  "files w p = Some c \<Longrightarrow> files (snd (snd (process_reporters env n idx rs self w))) p = Some c"
proof (induction rs arbitrary: idx self w)
  case Nil
  then show ?case by simp
next
  case (Cons r rs)
  obtain name rurl where r: "r = (name, rurl)" by (cases r)
  let ?dir = "path_join (output_dir self) name"
  let ?m = "mkdir env ?dir (say (Processing idx n name) w)"
  let ?g = "get_tar_files env rurl (snd ?m)"
  have f0: "files (snd ?m) p = Some c" "files (snd ?g) p = Some c"
    using Cons.prems by simp_all
  show ?case
  proof (cases "fst ?m")
    case (Raised e)
    with r f0 show ?thesis by (simp add: Let_def case_prod_beta)
  next
    case m: (Returned u)
    show ?thesis
    proof (cases "fst ?g")
      case (Raised e)
      with r m f0 show ?thesis by (simp add: Let_def case_prod_beta)
    next
      case g: (Returned tars)
      let ?d = "download_tars env ?dir (length tars) 1 tars self
                  (say (FoundTarFiles (length tars)) (snd ?g))"
      have k: "files (snd (snd ?d)) p = Some c"
        using f0 by (simp add: download_tars_keeps)
      show ?thesis
      proof (cases "tars = []")
        case True
        with r m g f0 Cons.IH [of "say (Line ''  No .tar files found'') (snd ?g)"] show ?thesis
          by (simp add: Let_def case_prod_beta)
      next
        case False
        show ?thesis
        proof (cases "fst ?d")
          case (Raised e)
          with False r m g k show ?thesis by (simp add: Let_def case_prod_beta)
        next
          case (Returned u')
          with False r m g k Cons.IH [of "say (Line []) (snd (snd ?d))"] show ?thesis
            by (simp add: Let_def case_prod_beta)
        qed
      qed
    qed
  qed
qed

lemma crawl_and_download_keeps:
  "files w p = Some c \<Longrightarrow> files (snd (snd (crawl_and_download env lim self w))) p = Some c"
  unfolding crawl_and_download_def
  by (simp add: Let_def case_prod_beta process_reporters_keeps
      split: result.splits option.splits)







section \<open>The object-store downloads\<close>

lemma bucket_download_attempt_frame:
  "requests (snd (bucket_download_attempt env u p w)) = requests w @ [(u, [])]"
  "dirs (snd (bucket_download_attempt env u p w)) = dirs w"
  "q \<noteq> p \<Longrightarrow> files (snd (bucket_download_attempt env u p w)) q = files w q"
  unfolding bucket_download_attempt_def
  by (simp_all add: case_prod_beta save_stream_frame split: result.splits option.splits)

lemma bucket_download_attempt_fails:
  assumes "transfer_fails env u" and "no_os_fault env" and "writable w p"
  shows "fst (bucket_download_attempt env u p w) = Raised RequestException"
proof (cases "http env (u, [])")
  case None
  then show ?thesis
    unfolding bucket_download_attempt_def by (simp add: case_prod_beta)
next
  case (Some r)
  show ?thesis
  proof (cases "http_error r")
    case True
    with Some show ?thesis
      unfolding bucket_download_attempt_def by (simp add: case_prod_beta)
  next
    case False
    with Some assms(1) have b: "stream_error r" and ok: "progress_ok r"
      by (simp_all add: transfer_fails_def)
    from ok obtain t where t: "total_size_of r = Returned t"
      and ov: "t \<le> 0 \<or> \<not> progress_overflows (length (concat (chunks r))) t"
      by (auto simp: progress_ok_def split: result.splits)
    have d: "writable (snd (requests_get_stream env (u, []) w)) p"
      using assms(3) by (simp add: writable_def)
    show ?thesis
      unfolding bucket_download_attempt_def using Some False t b
      by (simp add: case_prod_beta save_stream_ok(1) [OF assms(2) d ov])
  qed
qed

lemma bucket_download_attempt_succeeds:
  assumes "transfer_succeeds env u" and "no_os_fault env" and "writable w p"
  shows "fst (bucket_download_attempt env u p w) = Returned ()"
    and "files (snd (bucket_download_attempt env u p w)) p = Some (body_of env u)"
proof -
  from assms(1) obtain r where r: "http env (u, []) = Some r" and e: "\<not> http_error r"
    and b: "\<not> stream_error r" and ok: "progress_ok r"
    by (auto simp: transfer_succeeds_def split: option.splits)
  from ok obtain t where t: "total_size_of r = Returned t"
    and ov: "t \<le> 0 \<or> \<not> progress_overflows (length (concat (chunks r))) t"
    by (auto simp: progress_ok_def split: result.splits)
  have d: "writable (snd (requests_get_stream env (u, []) w)) p"
    using assms(3) by (simp add: writable_def)
  show "fst (bucket_download_attempt env u p w) = Returned ()"
    unfolding bucket_download_attempt_def using r e t b
    by (simp add: case_prod_beta save_stream_ok(1) [OF assms(2) d ov])
  show "files (snd (bucket_download_attempt env u p w)) p = Some (body_of env u)"
    unfolding bucket_download_attempt_def body_of_def using r e t b
    by (simp add: case_prod_beta save_stream_ok [OF assms(2) d ov])
qed

lemma bucket_download_file_existing:
  "exists_path w (destination out k) \<Longrightarrow>
   bucket_download_file env k base out w = (Returned True, say (SkippingExisting (basename k)) w)"
  by (simp add: bucket_download_file_def destination_def Let_def)

lemma bucket_download_file_requests:
  "requests (snd (bucket_download_file env k base out w)) =
     requests w @ (if exists_path w (destination out k) then [] else [(base @ k, [])])"
  unfolding bucket_download_file_def destination_def
  by (simp add: Let_def case_prod_beta bucket_download_attempt_frame split: result.splits)

lemma bucket_download_file_dirs [simp]:
  "dirs (snd (bucket_download_file env k base out w)) = dirs w"
  unfolding bucket_download_file_def
  by (simp add: Let_def case_prod_beta bucket_download_attempt_frame split: result.splits)

lemma bucket_download_file_other:
  "q \<noteq> destination out k \<Longrightarrow> files (snd (bucket_download_file env k base out w)) q = files w q"
  unfolding bucket_download_file_def destination_def
  by (simp add: Let_def case_prod_beta bucket_download_attempt_frame remove_path_other
      split: result.splits)

lemma bucket_download_file_keeps:
  "files w p = Some c \<Longrightarrow> files (snd (bucket_download_file env k base out w)) p = Some c"
proof (cases "exists_path w (destination out k)")
  case True
  assume "files w p = Some c"
  with True show ?thesis by (simp add: bucket_download_file_existing)
next
  case False
  assume c: "files w p = Some c"
  with False have "p \<noteq> destination out k" by (auto simp: exists_path_def)
  with c show ?thesis by (simp add: bucket_download_file_other)
qed

lemma bucket_download_file_exists_mono:
  "exists_path w p \<Longrightarrow> exists_path (snd (bucket_download_file env k base out w)) p"
  using bucket_download_file_keeps [of w p _ env k base out]
  by (auto simp: exists_path_def)


lemma bucket_download_file_False:
  "fst (bucket_download_file env k base out w) = Returned False
   \<Longrightarrow> \<not> exists_path (snd (bucket_download_file env k base out w)) (destination out k)"
  unfolding bucket_download_file_def destination_def
  by (auto simp: case_prod_beta Let_def split: result.splits if_splits
      dest: remove_path_Returned)

lemma bucket_download_file_fails:
  assumes "transfer_fails env (base @ k)" and "no_os_fault env"
    and "\<not> exists_path w (destination out k)" and "\<not> embedded_null (destination out k)"
  shows "fst (bucket_download_file env k base out w) = Returned False"
    and "\<not> exists_path (snd (bucket_download_file env k base out w)) (destination out k)"
    and "last (console (snd (bucket_download_file env k base out w))) =
           ErrorDownloadingFile (basename k)"
proof -
  let ?p = "path_join out (basename k)"
  let ?a = "bucket_download_attempt env (base @ k) ?p (say (DownloadingFile (basename k)) w)"
  let ?w2 = "say (ErrorDownloadingFile (basename k)) (snd ?a)"
  have nd: "writable w ?p" and ne: "\<not> exists_path w ?p"
    using assms(3,4) by (simp_all add: exists_path_def writable_def destination_def)
  have a: "fst ?a = Raised RequestException"
    using assms(1,2) nd by (intro bucket_download_attempt_fails) simp_all
  have d: "writable ?w2 ?p"
    using nd by (simp add: writable_def bucket_download_attempt_frame)
  have rm: "exists_path ?w2 ?p \<Longrightarrow>
      remove_path env ?p ?w2 = (Returned (), tick (?w2\<lparr>files := (files ?w2)(?p := None)\<rparr>))"
    using d by (intro remove_path_ok [OF assms(2)]) (auto simp: exists_path_def writable_def)
  show r: "fst (bucket_download_file env k base out w) = Returned False"
    unfolding bucket_download_file_def using a rm ne
    by (simp add: case_prod_beta Let_def)
  then show "\<not> exists_path (snd (bucket_download_file env k base out w)) (destination out k)"
    by (rule bucket_download_file_False)
  show "last (console (snd (bucket_download_file env k base out w))) =
           ErrorDownloadingFile (basename k)"
    unfolding bucket_download_file_def using a rm ne
    by (simp add: case_prod_beta Let_def)
qed

lemma bucket_download_file_succeeds:
  assumes "transfer_succeeds env (base @ k)" and "no_os_fault env"
    and "\<not> exists_path w (destination out k)" and "\<not> embedded_null (destination out k)"
  shows "fst (bucket_download_file env k base out w) = Returned True"
    and "files (snd (bucket_download_file env k base out w)) (destination out k) =
           Some (body_of env (base @ k))"
proof -
  let ?p = "path_join out (basename k)"
  have nd: "writable (say (DownloadingFile (basename k)) w) ?p" and ne: "\<not> exists_path w ?p"
    using assms(3,4) by (simp_all add: exists_path_def writable_def destination_def)
  note a = bucket_download_attempt_succeeds [OF assms(1,2) nd]
  show "fst (bucket_download_file env k base out w) = Returned True"
    unfolding bucket_download_file_def using a ne
    by (simp add: case_prod_beta Let_def)
  show "files (snd (bucket_download_file env k base out w)) (destination out k) =
           Some (body_of env (base @ k))"
    unfolding bucket_download_file_def destination_def using a ne
    by (simp add: case_prod_beta Let_def)
qed

text \<open>The download loop of \<^verbatim>\<open>main\<close>.\<close>

lemma download_all_keeps:
  "files w p = Some c \<Longrightarrow>
   files (snd (download_all env base out n i ks successful failed w)) p = Some c"
proof (induction ks arbitrary: i successful failed w)
  case Nil
  then show ?case by simp
next
  case (Cons k ks)
  let ?d = "bucket_download_file env k base out (say (ItemIndex i n) w)"
  have k: "files (snd ?d) p = Some c"
    using Cons.prems by (simp add: bucket_download_file_keeps)
  show ?case
  proof (cases "fst ?d")
    case (Raised e)
    with k show ?thesis by (simp add: case_prod_beta)
  next
    case (Returned ok)
    with k Cons.IH [of "snd ?d"] show ?thesis by (simp add: case_prod_beta)
  qed
qed



text \<open>Every request of the loop asks for the base URL followed by one of the keys.\<close>

lemma download_all_requests:
  "\<exists>fetched. requests (snd (download_all env base out n i ks successful failed w)) =
       requests w @ map (\<lambda>k. (base @ k, [])) fetched \<and> set fetched \<subseteq> set ks"
proof (induction ks arbitrary: i successful failed w)
  case Nil
  show ?case by simp
next
  case (Cons k ks)
  let ?d = "bucket_download_file env k base out (say (ItemIndex i n) w)"
  define first where "first = (if exists_path w (destination out k) then [] else [k])"
  have r: "requests (snd ?d) = requests w @ map (\<lambda>k. (base @ k, [])) first"
    by (simp add: bucket_download_file_requests first_def)
  have sub: "set first \<subseteq> set (k # ks)" by (simp add: first_def)
  show ?case
  proof (cases "fst ?d")
    case (Raised e)
    with r sub show ?thesis by (auto simp: case_prod_beta)
  next
    case (Returned ok)
    from Cons.IH [of "i + 1" "if ok then successful + 1 else successful"
        "if ok then failed else failed + 1" "snd ?d"]
    obtain fetched where f: "requests (snd (download_all env base out n (i + 1) ks
         (if ok then successful + 1 else successful) (if ok then failed else failed + 1) (snd ?d)))
        = requests (snd ?d) @ map (\<lambda>k. (base @ k, [])) fetched" and s: "set fetched \<subseteq> set ks"
      by blast
    have "requests (snd (download_all env base out n i (k # ks) successful failed w))
        = requests w @ map (\<lambda>k. (base @ k, [])) (first @ fetched)"
      using Returned f r by (cases ok) (simp_all add: case_prod_beta)
    moreover have "set (first @ fetched) \<subseteq> set (k # ks)"
      using sub s by auto
    ultimately show ?thesis by blast
  qed
qed

text \<open>Files that exist before the loop are counted as successful.\<close>

lemma download_all_counts_existing:
  "fst (download_all env base out n i ks successful failed w) = Returned (s, f) \<Longrightarrow>
   successful + length (filter (\<lambda>k. exists_path w (destination out k)) ks) \<le> s"
proof (induction ks arbitrary: i successful failed w)
  case Nil
  then show ?case by simp
next
  case (Cons k ks)
  let ?d = "bucket_download_file env k base out (say (ItemIndex i n) w)"
  have mono: "\<And>p. exists_path w p \<Longrightarrow> exists_path (snd ?d) p"
    using bucket_download_file_exists_mono [of "say (ItemIndex i n) w"] by simp
  then have le: "length (filter (\<lambda>k. exists_path w (destination out k)) ks)
      \<le> length (filter (\<lambda>k. exists_path (snd ?d) (destination out k)) ks)"
    by (induction ks) auto
  from Cons.prems obtain ok where ok: "fst ?d = Returned ok"
    by (cases "fst ?d") (simp_all add: case_prod_beta)
  show ?case
  proof (cases "exists_path w (destination out k)")
    case True
    then have "ok" using ok by (simp add: bucket_download_file_existing)
    with Cons.prems ok have
      "fst (download_all env base out n (i + 1) ks (successful + 1) failed (snd ?d)) = Returned (s, f)"
      by (simp add: case_prod_beta)
    from Cons.IH [OF this] le True show ?thesis by simp
  next
    case False
    show ?thesis
    proof (cases ok)
      case True
      with Cons.prems ok have
        "fst (download_all env base out n (i + 1) ks (successful + 1) failed (snd ?d)) = Returned (s, f)"
        by (simp add: case_prod_beta)
      from Cons.IH [OF this] le False show ?thesis by simp
    next
      case no: False
      with Cons.prems ok have
        "fst (download_all env base out n (i + 1) ks successful (failed + 1) (snd ?d)) = Returned (s, f)"
        by (simp add: case_prod_beta)
      from Cons.IH [OF this] le False show ?thesis by simp
    qed
  qed
qed

section \<open>Discovery of the keys\<close>

text \<open>The alternates queried: those that yield nothing, and the first one that yields keys.\<close>

lemma get_s3_bucket_listing_fst:
  "fst (get_s3_bucket_listing env u w) = Returned (listing_keys env u)"
  unfolding get_s3_bucket_listing_def listing_keys_def prefix_params_def
  by (simp add: case_prod_beta split: option.splits)

lemma get_s3_bucket_listing_snd [simp]:
  "files (snd (get_s3_bucket_listing env u w)) = files w"
  "dirs (snd (get_s3_bucket_listing env u w)) = dirs w"
  "requests (snd (get_s3_bucket_listing env u w)) = requests w @ [(u, prefix_params)]"
  unfolding get_s3_bucket_listing_def prefix_params_def
  by (simp_all add: case_prod_beta split: option.splits result.splits)

lemma get_files_from_html_listing_fst:
  "fst (get_files_from_html_listing env list_url w) = Returned (html_keys env)"
  unfolding get_files_from_html_listing_def html_keys_def html_bucket_def bucket_url_of_def
  by (simp add: case_prod_beta get_s3_bucket_listing_fst split: option.splits)

lemma get_files_from_html_listing_snd [simp]:
  "files (snd (get_files_from_html_listing env list_url w)) = files w"
  "dirs (snd (get_files_from_html_listing env list_url w)) = dirs w"
  "requests (snd (get_files_from_html_listing env list_url w)) = requests w @ html_requests env"
  unfolding get_files_from_html_listing_def html_requests_def html_bucket_def bucket_url_of_def
  by (simp_all add: case_prod_beta split: option.splits result.splits)

lemma try_endpoints_fst: "fst (try_endpoints env es w) = Returned (first_keys env es)"
proof (induction es arbitrary: w)
  case Nil
  show ?case by simp
next
  case (Cons e es)
  then show ?case
    by (simp add: case_prod_beta alt_keys_def Let_def split: option.splits)
qed

lemma try_endpoints_files [simp]: "files (snd (try_endpoints env es w)) = files w"
  by (induction es arbitrary: w)
    (simp_all add: case_prod_beta Let_def split: option.splits result.splits)

lemma try_endpoints_dirs [simp]: "dirs (snd (try_endpoints env es w)) = dirs w"
  by (induction es arbitrary: w)
    (simp_all add: case_prod_beta Let_def split: option.splits result.splits)

lemma try_endpoints_requests [simp]:
  "requests (snd (try_endpoints env es w)) = requests w @ map (\<lambda>e. (e, [])) (queried env es)"
  by (induction es arbitrary: w)
    (simp_all add: case_prod_beta alt_keys_def Let_def split: option.splits)

section \<open>Discovery and main as a whole\<close>

lemma discover_files_fst: "fst (discover_files env w) = Returned (discovered env)"
  unfolding discover_files_def discovered_def get_files_alternative_method_def
  by (simp add: case_prod_beta get_files_from_html_listing_fst try_endpoints_fst
      get_s3_bucket_listing_fst)

lemma discover_files_snd [simp]:
  "files (snd (discover_files env w)) = files w"
  "dirs (snd (discover_files env w)) = dirs w"
  "requests (snd (discover_files env w)) = requests w @ discovery_requests env"
  unfolding discover_files_def discovery_requests_def get_files_alternative_method_def
  by (simp_all add: case_prod_beta get_files_from_html_listing_fst try_endpoints_fst
      get_s3_bucket_listing_fst)

lemma main_keeps: "files w p = Some c \<Longrightarrow> files (snd (main env w)) p = Some c"
  unfolding main_def
  by (simp add: Let_def case_prod_beta discover_files_fst download_all_keeps
      split: result.splits option.splits)


lemma download_all_all_existing:
  "\<forall>k \<in> set ks. exists_path w (destination out k) \<Longrightarrow>
   fst (download_all env base out n i ks successful failed w) = Returned (successful + length ks, failed)
   \<and> requests (snd (download_all env base out n i ks successful failed w)) = requests w
   \<and> files (snd (download_all env base out n i ks successful failed w)) = files w"
proof (induction ks arbitrary: i successful w)
  case Nil
  show ?case by simp
next
  case (Cons k ks)
  let ?w1 = "say (SkippingExisting (basename k)) (say (ItemIndex i n) w)"
  have d: "bucket_download_file env k base out (say (ItemIndex i n) w) = (Returned True, ?w1)"
    using Cons.prems by (simp add: bucket_download_file_existing)
  have "\<forall>k \<in> set ks. exists_path ?w1 (destination out k)"
    using Cons.prems by simp
  from Cons.IH [OF this, of "i + 1" "successful + 1"] d show ?case by simp
qed

text \<open>In a directory without any of the files, a loop that ends has asked for every key.\<close>

lemma download_all_requests_fresh:
  "\<lbrakk>fst (download_all env base out n i ks successful failed w) = Returned (s, f);
    distinct (map (destination out) ks); \<forall>k \<in> set ks. \<not> exists_path w (destination out k)\<rbrakk>
   \<Longrightarrow> requests (snd (download_all env base out n i ks successful failed w)) =
         requests w @ map (\<lambda>k. (base @ k, [])) ks"
proof (induction ks arbitrary: i successful failed w)
  case Nil
  show ?case by simp
next
  case (Cons k ks)
  let ?d = "bucket_download_file env k base out (say (ItemIndex i n) w)"
  from Cons.prems(1) obtain ok where ok: "fst ?d = Returned ok"
    by (cases "fst ?d") (simp_all add: case_prod_beta)
  have r: "requests (snd ?d) = requests w @ [(base @ k, [])]"
    using Cons.prems(3) by (simp add: bucket_download_file_requests)
  have fresh: "\<forall>k' \<in> set ks. \<not> exists_path (snd ?d) (destination out k')"
  proof
    fix k' assume k': "k' \<in> set ks"
    have "destination out k \<notin> set (map (destination out) ks)"
      using Cons.prems(2) by simp
    moreover have "destination out k' \<in> set (map (destination out) ks)"
      using k' by simp
    ultimately have "destination out k' \<noteq> destination out k" by metis
    then have "files (snd ?d) (destination out k') = files w (destination out k')"
      by (simp add: bucket_download_file_other)
    with Cons.prems(3) k' show "\<not> exists_path (snd ?d) (destination out k')"
      by (simp add: exists_path_def)
  qed
  have dist: "distinct (map (destination out) ks)" using Cons.prems(2) by simp
  show ?case
  proof (cases ok)
    case True
    with Cons.prems(1) ok have
      "fst (download_all env base out n (i + 1) ks (successful + 1) failed (snd ?d)) = Returned (s, f)"
      by (simp add: case_prod_beta)
    from Cons.IH [OF this dist fresh] ok True r show ?thesis by (simp add: case_prod_beta)
  next
    case False
    with Cons.prems(1) ok have
      "fst (download_all env base out n (i + 1) ks successful (failed + 1) (snd ?d)) = Returned (s, f)"
      by (simp add: case_prod_beta)
    from Cons.IH [OF this dist fresh] ok False r show ?thesis by (simp add: case_prod_beta)
  qed
qed

lemma path_join_relative:
  "\<not> prefix ''/'' b \<Longrightarrow> \<not> prefix ''/'' b' \<Longrightarrow> path_join a b = path_join a b' \<longleftrightarrow> b = b'"
  by (simp add: path_join_def)

lemma crawl_and_download_unfold:
  assumes "selected_reporters env lim self = rs"
    and "reporters_of (base_url self) (page_links env (base_url self)) \<noteq> []"
  shows "\<exists>w0. files w0 = files w \<and> dirs w0 = dirs w \<and>
    fst (crawl_and_download env lim self w) = fst (process_reporters env (length rs) 1 rs self w0) \<and>
    fst (snd (crawl_and_download env lim self w)) =
      fst (snd (process_reporters env (length rs) 1 rs self w0)) \<and>
    files (snd (snd (crawl_and_download env lim self w))) =
      files (snd (snd (process_reporters env (length rs) 1 rs self w0))) \<and>
    dirs (snd (snd (crawl_and_download env lim self w))) =
      dirs (snd (snd (process_reporters env (length rs) 1 rs self w0)))"
proof -
  let ?w0 = "w\<lparr>console := console w @ [Line ''Case Law Crawler - https://static.case.law/'',
               Line (replicate 60 (CHR ''='')), OutputDirectory (output_dir self), Line []]\<rparr>"
  let ?rs0 = "reporters_of (base_url self) (page_links env (base_url self))"
  let ?w1 = "say (FoundReporters (length ?rs0)) (snd (get_reporter_directories env self ?w0))"
  let ?w2 = "say (Line []) (case lim of None \<Rightarrow> ?w1
      | Some k \<Rightarrow> if k \<noteq> 0 then say (Limiting k) ?w1 else ?w1)"
  have rs: "rs = (case lim of None \<Rightarrow> ?rs0 | Some k \<Rightarrow> if k \<noteq> 0 then slice_to k ?rs0 else ?rs0)"
    using assms(1) by (simp add: selected_reporters_def Let_def)
  have f: "files ?w2 = files w" "dirs ?w2 = dirs w"
    by (cases lim; simp)+
  have c: "crawl_and_download env lim self w =
    (case process_reporters env (length rs) 1 rs self ?w2 of
       (Raised e, self4, w4) \<Rightarrow> (Raised e, self4, w4)
     | (Returned u, self4, w4) \<Rightarrow> (Returned (), self4, w4\<lparr>console := console w4 @ summary self4\<rparr>))"
    unfolding crawl_and_download_def rs using assms(2)
    by (simp add: Let_def case_prod_beta get_reporter_directories_nonempty
        del: process_reporters.simps)
  have "fst (crawl_and_download env lim self w) = fst (process_reporters env (length rs) 1 rs self ?w2) \<and>
    fst (snd (crawl_and_download env lim self w)) =
      fst (snd (process_reporters env (length rs) 1 rs self ?w2)) \<and>
    files (snd (snd (crawl_and_download env lim self w))) =
      files (snd (snd (process_reporters env (length rs) 1 rs self ?w2))) \<and>
    dirs (snd (snd (crawl_and_download env lim self w))) =
      dirs (snd (snd (process_reporters env (length rs) 1 rs self ?w2)))"
    unfolding c by (simp add: case_prod_beta split: result.splits del: process_reporters.simps)
  with f show ?thesis by blast
qed

text \<open>When keys were discovered and the answer is yes, \<^verbatim>\<open>main\<close> is the loop and the summary.\<close>

lemma main_unfold:
  assumes "discovered env = Some ks" and "ks \<noteq> []" and "\<not> declined (stdin_line env)"
  shows "\<exists>w2. files w2 = files w \<and> dirs w2 = dirs w \<and>
    requests w2 = requests w @ discovery_requests env \<and>
    main env w =
      (case download_all env s3_base_url downloads_dir (length ks) 1 ks 0 0 w2 of
         (Raised e, w3) \<Rightarrow> (Raised e, w3)
       | (Returned (successful, failed), w3) \<Rightarrow>
           (Returned (), w3\<lparr>console := console w3 @ report successful failed\<rparr>))"
proof -
  let ?w1 = "snd (discover_files env
                    (say (Text (''Files will be saved to: courtlistener_downloads/'' @ [CHR 0x0A])) w))"
  let ?w2 = "?w1\<lparr>console := console ?w1 @ announce ks\<rparr>"
  have "main env w =
      (case download_all env s3_base_url downloads_dir (length ks) 1 ks 0 0 ?w2 of
         (Raised e, w3) \<Rightarrow> (Raised e, w3)
       | (Returned (successful, failed), w3) \<Rightarrow>
           (Returned (), w3\<lparr>console := console w3 @ report successful failed\<rparr>))"
    unfolding main_def using assms
    by (simp add: Let_def case_prod_beta discover_files_fst no_files_def
        del: download_all.simps)
  moreover have "files ?w2 = files w" "dirs ?w2 = dirs w"
    "requests ?w2 = requests w @ discovery_requests env"
    by simp_all
  ultimately show ?thesis by blast
qed

lemma main_requests:
  assumes "discovered env = Some ks" and "ks \<noteq> []" and "\<not> declined (stdin_line env)"
  shows "\<exists>fetched. requests (snd (main env w)) =
           requests w @ discovery_requests env @ map (\<lambda>k. (s3_base_url @ k, [])) fetched \<and>
           set fetched \<subseteq> set ks"
proof -
  from main_unfold [OF assms, of w] obtain w2
    where r: "requests w2 = requests w @ discovery_requests env"
    and m: "main env w =
      (case download_all env s3_base_url downloads_dir (length ks) 1 ks 0 0 w2 of
         (Raised e, w3) \<Rightarrow> (Raised e, w3)
       | (Returned (successful, failed), w3) \<Rightarrow>
           (Returned (), w3\<lparr>console := console w3 @ report successful failed\<rparr>))"
    by blast
  let ?d = "download_all env s3_base_url downloads_dir (length ks) 1 ks 0 0 w2"
  obtain fetched where f: "requests (snd ?d) = requests w2 @ map (\<lambda>k. (s3_base_url @ k, [])) fetched"
    and s: "set fetched \<subseteq> set ks"
    using download_all_requests by blast
  have "requests (snd (main env w)) = requests (snd ?d)"
    unfolding m by (simp add: case_prod_beta split: result.splits del: download_all.simps)
  with f s r show ?thesis by auto
qed

lemma main_requests_fresh:
  assumes "discovered env = Some ks" and "ks \<noteq> []" and "\<not> declined (stdin_line env)"
    and "fst (main env w) = Returned ()"
    and "distinct (map (destination downloads_dir) ks)"
    and "\<forall>k \<in> set ks. \<not> exists_path w (destination downloads_dir k)"
  shows "requests (snd (main env w)) =
           requests w @ discovery_requests env @ map (\<lambda>k. (s3_base_url @ k, [])) ks"
proof -
  from main_unfold [OF assms(1-3), of w] obtain w2
    where fl: "files w2 = files w" "dirs w2 = dirs w"
    and r: "requests w2 = requests w @ discovery_requests env"
    and m: "main env w =
      (case download_all env s3_base_url downloads_dir (length ks) 1 ks 0 0 w2 of
         (Raised e, w3) \<Rightarrow> (Raised e, w3)
       | (Returned (successful, failed), w3) \<Rightarrow>
           (Returned (), w3\<lparr>console := console w3 @ report successful failed\<rparr>))"
    by blast
  let ?d = "download_all env s3_base_url downloads_dir (length ks) 1 ks 0 0 w2"
  from assms(4) obtain s f where d: "fst ?d = Returned (s, f)"
    unfolding m by (cases "fst ?d") (auto simp: case_prod_beta simp del: download_all.simps)
  have fresh: "\<forall>k \<in> set ks. \<not> exists_path w2 (destination downloads_dir k)"
    using assms(6) fl by (simp add: exists_path_def)
  have "requests (snd ?d) = requests w2 @ map (\<lambda>k. (s3_base_url @ k, [])) ks"
    using d assms(5) fresh by (rule download_all_requests_fresh)
  moreover have "requests (snd (main env w)) = requests (snd ?d)"
    unfolding m using d by (simp add: case_prod_beta del: download_all.simps)
  ultimately show ?thesis using r by simp
qed

section \<open>The claims\<close>

text \<open>
  C4.  A response body that arrives with a status \<^verbatim>\<open>raise_for_status\<close> accepts, and that
  contains the occurrences \<open>segs\<close> of the \<^verbatim>\<open><Key>...</Key>\<close> pattern (each with the
  occurrence-free text before it, \<open>tail\<close> after the last one): \<^verbatim>\<open>get_s3_bucket_listing\<close>
  returns the keys of these occurrences that end in \<^verbatim>\<open>.bz2\<close>, in document order, and
  nothing else.  By \<open>body_decomposition\<close> every body has such a layout.
\<close>

theorem listBucketKeys_returns_bz2_keys_in_order:
  assumes "http env (bucket_url, [(''prefix'', ''bulk-data/'')]) = Some r"
    and "\<not> stream_error r" and "\<not> http_error r"
    and "text_of r = listing_body segs tail"
    and "\<forall>(pre, k) \<in> set segs. tag_free pre \<and> valid_key k" and "tag_free tail"
  shows "fst (get_s3_bucket_listing env bucket_url w) =
           Returned (Some (filter (\<lambda>k. endswith k ''.bz2'') (map snd segs)))"
proof -
  have "findall_keys (text_of r) = map snd segs"
    using assms(4-6) by (simp add: findall_listing_body)
  then show ?thesis
    using assms(1-3) unfolding get_s3_bucket_listing_def bz2_keys_def
    by (simp add: case_prod_beta)
qed

text \<open>
  C4 on the example bucket: three occurrences in a body that arrives in two chunks, two of
  them \<^verbatim>\<open>.bz2\<close> keys.
\<close>

theorem listBucketKeys_witness:
  "fst (get_s3_bucket_listing listing_env ''https://b/'' (empty_world :: bucket_msg world)) =
     Returned (Some [''a.bz2'', ''c/d.bz2''])"
proof -
  let ?r = "ok_response [''<R><Key>a.bz2</Key><Key>b.txt</Key>'', ''<Key>c/d.bz2</Key></R>'']"
  let ?segs = "[(''<R>'', ''a.bz2''), ([], ''b.txt''), ([], ''c/d.bz2'')]"
  have h1: "http listing_env (''https://b/'', [(''prefix'', ''bulk-data/'')]) = Some ?r"
    by (simp add: listing_env_def)
  have h2: "\<not> stream_error ?r" and h3: "\<not> http_error ?r"
    by (simp_all add: ok_response_def http_error_def)
  have h4: "text_of ?r = listing_body ?segs ''</R>''"
    by (simp add: text_of_def ok_response_def key_tag_def)
  have h5: "\<forall>(pre, k) \<in> set ?segs. tag_free pre \<and> valid_key k"
    by (simp add: tag_free_iff valid_key_def match_key_def)
  have h6: "tag_free ''</R>''"
    by (simp add: tag_free_iff match_key_def)
  show ?thesis
    using listBucketKeys_returns_bz2_keys_in_order [OF h1 h2 h3 h4 h5 h6, of empty_world]
    by (simp add: endswith_def)
qed

text \<open>
  C5.  \<^verbatim>\<open>get_reporter_directories\<close> fetches the root page and returns, of its links in
  document order, those that end in the separator, are not the root and whose final
  non-empty path segment does not end in \<^verbatim>\<open>.json\<close>, each paired with that segment; every
  other link is dropped.  (A link without any non-empty segment has no name and is dropped
  as well; by \<open>final_nonempty_segment_None_iff\<close> these are the links made of separators
  only.)
\<close>

theorem listReporters_returns_named_directories:
  "get_reporter_directories env self w =
     (case get_page_links env (base_url self)
             (say (Line ''Discovering reporter directories...'') w) of
        (Raised e, w1) \<Rightarrow> (Raised e, w1)
      | (Returned links, w1) \<Rightarrow> (Returned (listReporters_spec (base_url self) links), w1))"
  unfolding get_reporter_directories_def
  by (simp add: reporters_of_spec split: prod.splits result.splits)

text \<open>
  C5 on the example host: of the root itself, the reporter \<^verbatim>\<open>a/\<close>, the entry
  \<^verbatim>\<open>meta.json/\<close> and the file \<^verbatim>\<open>f.tar\<close>, the reporter is returned.
\<close>

theorem listReporters_witness:
  "get_reporter_directories tree_env tree_crawler empty_world =
     (Returned [(''a'', ''https://h/a/'')],
      \<lparr>files = Map.empty, dirs = {}, requests = [(''https://h/'', [])],
        console = [Line ''Discovering reporter directories...''], clock = 0\<rparr>)"
proof -
  have s: "split (CHR ''/'') ''https://h/'' = [''https:'', [], ''h'', []]"
    "split (CHR ''/'') ''https://h/a/'' = [''https:'', [], ''h'', ''a'', []]"
    "split (CHR ''/'') ''https://h/meta.json/'' = [''https:'', [], ''h'', ''meta.json'', []]"
    by simp_all
  have "listReporters_spec ''https://h/''
          [''https://h/'', ''https://h/a/'', ''https://h/meta.json/'', ''https://h/f.tar'']
        = [(''a'', ''https://h/a/'')]"
    by (simp add: listReporters_spec_def final_nonempty_segment_def s endswith_def)
  then show ?thesis
    using listReporters_returns_named_directories [of tree_env tree_crawler empty_world]
    by (simp add: tree_crawler_def get_page_links_def parse_links_def requests_get_def
        tree_env_def ok_response_def http_error_def text_of_def List.map_filter_def say_def
        empty_world_def Let_def)
qed

text \<open>
  C1, as stated, fails for the Fetcher of the tree-host crawler: \<^verbatim>\<open>download_file\<close> of
  \<^verbatim>\<open>crawler_caselaw.py\<close> has no existence check.  Called for a destination that holds
  \<^verbatim>\<open>old\<close>, it sends the request and replaces the file.
\<close>

theorem tree_fetcher_overwrites_existing_file:
  "files old_world ''out/a/a.tar'' = Some ''old'' \<and>
   fst (download_file tree_env ''https://h/a/a.tar'' ''out/a/a.tar'' old_world) = Returned True \<and>
   requests (snd (download_file tree_env ''https://h/a/a.tar'' ''out/a/a.tar'' old_world)) =
     [(''https://h/a/a.tar'', [])] \<and>
   files (snd (download_file tree_env ''https://h/a/a.tar'' ''out/a/a.tar'' old_world))
     ''out/a/a.tar'' = Some ''AAAA''"
  by (simp add: download_file_def download_attempt_def save_stream_def requests_get_stream_def
      tree_env_def old_world_def ok_response_def http_error_def total_size_of_def open_wb_def
      embedded_null_def f_write_def f_close_def fault_at_def tick_def say_def Let_def)

text \<open>
  C1, amended.  When the destination exists: \<^verbatim>\<open>download_file\<close> of the object-store script
  returns \<^verbatim>\<open>True\<close>, sends no request and leaves the files as they are; the loop of the
  tree-host crawler, which makes the check itself, counts the item as skipped and goes on
  without calling its Fetcher.  A file that exists when \<^verbatim>\<open>crawl_and_download\<close> or
  \<^verbatim>\<open>main\<close> starts has the same content when it ends, however it ends.
\<close>

theorem existing_destination_is_never_overwritten:
  "(exists_path wb (destination out k) \<longrightarrow>
      fst (bucket_download_file env k base out wb) = Returned True \<and>
      requests (snd (bucket_download_file env k base out wb)) = requests wb \<and>
      files (snd (bucket_download_file env k base out wb)) = files wb) \<and>
   (exists_path w (path_join dir (last_segment u)) \<longrightarrow>
      download_tars env dir n i (u # us) self w =
        download_tars env dir n (i + 1) us (self\<lparr>skipped_count := skipped_count self + 1\<rparr>)
          (say (Skipping i n (last_segment u)) w)) \<and>
   (files w p = Some c \<longrightarrow> files (snd (snd (crawl_and_download env lim self w))) p = Some c) \<and>
   (files wb p = Some c \<longrightarrow> files (snd (main env wb)) p = Some c)"
  by (simp add: bucket_download_file_existing crawl_and_download_keeps main_keeps Let_def)

text \<open>C1, the amended claim at work on the two example disks.\<close>

theorem existing_destination_witness:
  "exists_path fetched_world (destination ''courtlistener_downloads'' ''bulk-data/a.bz2'') \<and>
   fst (bucket_download_file storage_env ''bulk-data/a.bz2'' s3_base_url ''courtlistener_downloads''
          fetched_world) = Returned True \<and>
   requests (snd (bucket_download_file storage_env ''bulk-data/a.bz2'' s3_base_url
                    ''courtlistener_downloads'' fetched_world)) = [] \<and>
   exists_path old_world (path_join ''out/a'' (last_segment ''https://h/a/a.tar'')) \<and>
   files old_world ''out/a/a.tar'' = Some ''old'' \<and>
   files (snd (snd (crawl_and_download tree_env None tree_crawler old_world))) ''out/a/a.tar'' =
     Some ''old'' \<and>
   files fetched_world ''courtlistener_downloads/a.bz2'' = Some ''old'' \<and>
   files (snd (main storage_env fetched_world)) ''courtlistener_downloads/a.bz2'' = Some ''old''"
proof -
  have e1: "exists_path fetched_world (destination ''courtlistener_downloads'' ''bulk-data/a.bz2'')"
    by (simp add: exists_path_def fetched_world_def destination_def path_join_def basename_def
        endswith_def)
  have e2: "exists_path old_world (path_join ''out/a'' (last_segment ''https://h/a/a.tar''))"
    by (simp add: exists_path_def old_world_def path_join_def last_segment_def endswith_def)
  have f1: "files old_world ''out/a/a.tar'' = Some ''old''"
    by (simp add: old_world_def)
  have f2: "files fetched_world ''courtlistener_downloads/a.bz2'' = Some ''old''"
    by (simp add: fetched_world_def)
  have r: "requests fetched_world = []"
    by (simp add: fetched_world_def)
  show ?thesis
    using e1 e2 f1 f2 r
      existing_destination_is_never_overwritten [where wb = fetched_world
        and out = "''courtlistener_downloads''" and k = "''bulk-data/a.bz2''" and env = storage_env
        and base = s3_base_url and p = "''courtlistener_downloads/a.bz2''" and c = "''old''"]
      existing_destination_is_never_overwritten [where w = old_world and dir = "''out/a''"
        and u = "''https://h/a/a.tar''" and env = tree_env and self = tree_crawler
        and p = "''out/a/a.tar''" and c = "''old''" and lim = None]
    by simp
qed

text \<open>
  C2, as stated, fails for a write error: on a disk that fails at the second write, with
  three bytes written, \<^verbatim>\<open>f.write\<close> raises \<^verbatim>\<open>OSError\<close>, which
  \<^verbatim>\<open>except requests.RequestException\<close> does not catch; the error leaves \<^verbatim>\<open>download_file\<close>
  and the three bytes stay on disk.
\<close>

theorem write_error_leaves_partial_file:
  "fst (download_file small_disk_env ''https://h/a/a.tar'' ''out/a/a.tar'' empty_world) = Raised OSError \<and>
   files (snd (download_file small_disk_env ''https://h/a/a.tar'' ''out/a/a.tar''
                 (empty_world :: caselaw_msg world))) ''out/a/a.tar'' = Some ''AAA''"
  by (simp add: download_file_def download_attempt_def save_stream_def requests_get_stream_def
      tree_env_def small_disk_env_def empty_world_def ok_response_def http_error_def
      total_size_of_def open_wb_def embedded_null_def f_write_def f_close_def fault_at_def
      raised_by_def tick_def say_def Let_def)

text \<open>
  C2, amended.  When the transfer ends in a \<^verbatim>\<open>RequestException\<close> (no response, a 4xx or 5xx
  status, or a stream that breaks after the destination was opened), the destination can
  be written (its name has no NUL character and is not the name of a directory) and no
  call on the file system fails, the Fetcher of either script returns \<^verbatim>\<open>False\<close> and the
  destination path does not exist afterwards.
\<close>

theorem request_failure_removes_partial_file:
  "(transfer_fails env u \<and> no_os_fault env \<and> writable w p \<longrightarrow>
      fst (download_file env u p w) = Returned False \<and>
      files (snd (download_file env u p w)) p = None \<and>
      \<not> exists_path (snd (download_file env u p w)) p) \<and>
   (transfer_fails env (base @ k) \<and> no_os_fault env \<and>
    \<not> exists_path wb (destination out k) \<and> \<not> embedded_null (destination out k) \<longrightarrow>
      fst (bucket_download_file env k base out wb) = Returned False \<and>
      files (snd (bucket_download_file env k base out wb)) (destination out k) = None \<and>
      \<not> exists_path (snd (bucket_download_file env k base out wb)) (destination out k))"
proof (intro conjI impI)
  assume a: "transfer_fails env u \<and> no_os_fault env \<and> writable w p"
  then have f: "transfer_fails env u" and nf: "no_os_fault env" and d: "writable w p"
    by simp_all
  show "fst (download_file env u p w) = Returned False"
    using f nf d by (rule download_file_fails(1))
  show e: "\<not> exists_path (snd (download_file env u p w)) p"
    using f nf d by (rule download_file_fails(2))
  then show "files (snd (download_file env u p w)) p = None"
    by (simp add: exists_path_def)
next
  assume a: "transfer_fails env (base @ k) \<and> no_os_fault env \<and>
             \<not> exists_path wb (destination out k) \<and> \<not> embedded_null (destination out k)"
  then have f: "transfer_fails env (base @ k)" and nf: "no_os_fault env"
    and d: "\<not> exists_path wb (destination out k)" and v: "\<not> embedded_null (destination out k)"
    by simp_all
  show "fst (bucket_download_file env k base out wb) = Returned False"
    using f nf d v by (rule bucket_download_file_fails(1))
  show e: "\<not> exists_path (snd (bucket_download_file env k base out wb)) (destination out k)"
    using f nf d v by (rule bucket_download_file_fails(2))
  then show "files (snd (bucket_download_file env k base out wb)) (destination out k) = None"
    by (simp add: exists_path_def)
qed

text \<open>C2, the amended claim for a stream that breaks and for a request without response.\<close>

theorem request_failure_witness:
  "transfer_fails tree_env ''https://h/a/b.tar'' \<and> no_os_fault tree_env \<and>
   writable (empty_world :: caselaw_msg world) ''out/a/b.tar'' \<and>
   fst (download_file tree_env ''https://h/a/b.tar'' ''out/a/b.tar'' empty_world) = Returned False \<and>
   files (snd (download_file tree_env ''https://h/a/b.tar'' ''out/a/b.tar''
                 (empty_world :: caselaw_msg world))) ''out/a/b.tar'' = None \<and>
   transfer_fails bucket_env (s3_base_url @ ''bulk-data/b.bz2'') \<and> no_os_fault bucket_env \<and>
   \<not> exists_path (empty_world :: bucket_msg world)
        (destination ''courtlistener_downloads'' ''bulk-data/b.bz2'') \<and>
   \<not> embedded_null (destination ''courtlistener_downloads'' ''bulk-data/b.bz2'') \<and>
   fst (bucket_download_file bucket_env ''bulk-data/b.bz2'' s3_base_url ''courtlistener_downloads''
          empty_world) = Returned False \<and>
   files (snd (bucket_download_file bucket_env ''bulk-data/b.bz2'' s3_base_url
                 ''courtlistener_downloads'' (empty_world :: bucket_msg world)))
     (destination ''courtlistener_downloads'' ''bulk-data/b.bz2'') = None"
proof -
  have p: "progress_ok \<lparr>status_code = 200, content_length = Numeric 5, chunks = [''BB''],
                         stream_error = True\<rparr>"
    by (simp add: progress_ok_def total_size_of_def progress_overflows_small)
  have t1: "transfer_fails tree_env ''https://h/a/b.tar''"
    using p by (simp add: transfer_fails_def tree_env_def http_error_def)
  have n1: "no_os_fault tree_env"
    by (simp add: no_os_fault_def tree_env_def)
  have d1: "writable (empty_world :: caselaw_msg world) ''out/a/b.tar''"
    by (simp add: writable_def embedded_null_def empty_world_def)
  have t2: "transfer_fails bucket_env (s3_base_url @ ''bulk-data/b.bz2'')"
    by (simp add: transfer_fails_def bucket_env_def s3_base_url_def list_url_def
        storage_base_url_def)
  have n2: "no_os_fault bucket_env"
    by (simp add: no_os_fault_def bucket_env_def)
  have e: "\<not> exists_path (empty_world :: bucket_msg world)
             (destination ''courtlistener_downloads'' ''bulk-data/b.bz2'')"
    by (simp add: exists_path_def empty_world_def)
  have v: "\<not> embedded_null (destination ''courtlistener_downloads'' ''bulk-data/b.bz2'')"
    by (simp add: embedded_null_def destination_def path_join_def basename_def endswith_def)
  show ?thesis
    using t1 n1 d1 t2 n2 e v
      request_failure_removes_partial_file [where env = tree_env and u = "''https://h/a/b.tar''"
        and p = "''out/a/b.tar''" and w = empty_world]
      request_failure_removes_partial_file [where env = bucket_env and base = s3_base_url
        and k = "''bulk-data/b.bz2''" and out = "''courtlistener_downloads''" and wb = empty_world]
    by simp
qed

text \<open>
  C6.  One reporter whose page lists two archives named \<^verbatim>\<open>a.tar\<close> and \<^verbatim>\<open>b.tar\<close>, neither
  of them on disk, a crawler with its counters at zero; the first transfer succeeds and the
  second ends in a \<^verbatim>\<open>RequestException\<close> (as a stream that breaks does); the name of the
  reporter's directory has no NUL character, no regular file is in its place, and no call
  on the file system fails.  Then
  \<^verbatim>\<open>crawl_and_download\<close> returns with downloaded = 1, failed = 1, skipped = 0, the file
  \<^verbatim>\<open>a.tar\<close> holds the body sent and \<^verbatim>\<open>b.tar\<close> does not exist.
\<close>

theorem two_archives_one_fails:
  assumes reporters: "reporters_of (base_url self) (page_links env (base_url self)) = [(name, reporter_url)]"
    and limit: "\<forall>k. limit_reporters = Some k \<longrightarrow> 0 \<le> k"
    and archives: "tar_links env reporter_url = [ua, ub]"
    and names: "last_segment ua = ''a.tar''" "last_segment ub = ''b.tar''"
    and healthy: "no_os_fault env"
    and directory: "\<not> embedded_null (path_join (output_dir self) name)"
                   "files w (path_join (output_dir self) name) = None"
    and empty: "\<not> exists_path w (path_join (path_join (output_dir self) name) ''a.tar'')"
               "\<not> exists_path w (path_join (path_join (output_dir self) name) ''b.tar'')"
    and first: "transfer_succeeds env ua"
    and second: "transfer_fails env ub"
    and counters: "downloaded_count self = 0" "failed_count self = 0" "skipped_count self = 0"
  shows "fst (crawl_and_download env limit_reporters self w) = Returned () \<and>
         downloaded_count (fst (snd (crawl_and_download env limit_reporters self w))) = 1 \<and>
         failed_count (fst (snd (crawl_and_download env limit_reporters self w))) = 1 \<and>
         skipped_count (fst (snd (crawl_and_download env limit_reporters self w))) = 0 \<and>
         files (snd (snd (crawl_and_download env limit_reporters self w)))
           (path_join (path_join (output_dir self) name) ''a.tar'') = Some (body_of env ua) \<and>
         \<not> exists_path (snd (snd (crawl_and_download env limit_reporters self w)))
           (path_join (path_join (output_dir self) name) ''b.tar'')"
proof -
  let ?dir = "path_join (output_dir self) name"
  let ?pa = "path_join ?dir ''a.tar''" and ?pb = "path_join ?dir ''b.tar''"
  define Q where "Q = (\<lambda>x :: unit result \<times> crawler \<times> caselaw_msg world.
    fst x = Returned () \<and> downloaded_count (fst (snd x)) = 1 \<and> failed_count (fst (snd x)) = 1 \<and>
    skipped_count (fst (snd x)) = 0 \<and> files (snd (snd x)) ?pa = Some (body_of env ua) \<and>
    \<not> exists_path (snd (snd x)) ?pb)"
  have ne: "?pa \<noteq> ?pb" "?pa \<noteq> ?dir" "?pb \<noteq> ?dir" by (simp_all add: path_join_def)
  have valid: "\<not> embedded_null ?pa" "\<not> embedded_null ?pb"
    using directory(1) by (simp_all add: embedded_null_def path_join_def)
  have loop: "Q (download_tars env ?dir n i [ua, ub] self w0)"
    if "\<not> exists_path w0 ?pa" and "\<not> exists_path w0 ?pb" for n i w0
  proof -
    let ?wa = "say (Downloading i n ''a.tar'') w0"
    let ?da = "download_file env ua ?pa ?wa"
    let ?wb = "say (Downloading (i + 1) n ''b.tar'') (say (Completed ''a.tar'') (snd ?da))"
    let ?db = "download_file env ub ?pb ?wb"
    have da: "writable ?wa ?pa" using that(1) valid by (simp add: exists_path_def writable_def)
    have a: "fst ?da = Returned True" "files (snd ?da) ?pa = Some (body_of env ua)"
      using download_file_succeeds [OF first healthy da] by simp_all
    have eb: "\<not> exists_path ?wb ?pb"
      using that(2) ne by (simp add: exists_path_def download_file_frame)
    then have db: "writable ?wb ?pb" using valid by (simp add: exists_path_def writable_def)
    have b: "fst ?db = Returned False" "\<not> exists_path (snd ?db) ?pb"
      using download_file_fails [OF second healthy db] by simp_all
    have keep: "files (snd ?db) ?pa = Some (body_of env ua)"
      using a(2) ne by (simp add: download_file_frame)
    show ?thesis
      unfolding Q_def using that names counters a b eb keep
      by (simp add: Let_def case_prod_beta)
  qed
  have reporter: "Q (process_reporters env n i [(name, reporter_url)] self w0)"
    if "files w0 ?dir = None" and "\<not> exists_path w0 ?pa" and "\<not> exists_path w0 ?pb" for n i w0
  proof -
    let ?w1 = "say (Processing i n name) w0"
    let ?w2 = "tick (?w1\<lparr>dirs := insert ?dir (dirs ?w1)\<rparr>)"
    let ?w3 = "say (FoundTarFiles (length [ua, ub])) (snd (get_tar_files env reporter_url ?w2))"
    have m: "mkdir env ?dir ?w1 = (Returned (), ?w2)"
      using that(1) directory(1) by (intro mkdir_ok [OF healthy]) simp_all
    have g: "fst (get_tar_files env reporter_url ?w2) = Returned [ua, ub]"
      using get_tar_files_nonempty [of env reporter_url ?w2] archives by simp
    have e: "\<not> exists_path ?w3 ?pa" "\<not> exists_path ?w3 ?pb"
      using that(2,3) ne by (simp_all add: exists_path_def)
    have "Q (download_tars env ?dir (length [ua, ub]) 1 [ua, ub] self ?w3)"
      using e by (rule loop)
    then show ?thesis
      unfolding Q_def using m g
      by (simp add: Let_def case_prod_beta del: download_tars.simps)
  qed
  have sel: "selected_reporters env limit_reporters self = [(name, reporter_url)]"
    using limit reporters
    by (cases limit_reporters) (auto simp: selected_reporters_def slice_to_def Let_def take_Cons')
  from crawl_and_download_unfold [OF sel, of w] reporters obtain w0 where w0: "files w0 = files w"
    "dirs w0 = dirs w"
    and c: "fst (crawl_and_download env limit_reporters self w) =
        fst (process_reporters env (length [(name, reporter_url)]) 1 [(name, reporter_url)] self w0)"
      "fst (snd (crawl_and_download env limit_reporters self w)) =
        fst (snd (process_reporters env (length [(name, reporter_url)]) 1 [(name, reporter_url)] self w0))"
      "files (snd (snd (crawl_and_download env limit_reporters self w))) =
        files (snd (snd (process_reporters env (length [(name, reporter_url)]) 1
                           [(name, reporter_url)] self w0)))"
      "dirs (snd (snd (crawl_and_download env limit_reporters self w))) =
        dirs (snd (snd (process_reporters env (length [(name, reporter_url)]) 1
                           [(name, reporter_url)] self w0)))"
    by auto
  from w0 directory(2) empty have "Q (process_reporters env (length [(name, reporter_url)]) 1
                         [(name, reporter_url)] self w0)"
    by (intro reporter) (simp_all add: exists_path_def)
  then show ?thesis
    unfolding Q_def exists_path_def c by simp
qed

text \<open>C6 on the example host, where the stream of \<^verbatim>\<open>b.tar\<close> breaks after two bytes.\<close>

theorem two_archives_witness:
  "fst (crawl_and_download tree_env None tree_crawler empty_world) = Returned () \<and>
   downloaded_count (fst (snd (crawl_and_download tree_env None tree_crawler empty_world))) = 1 \<and>
   failed_count (fst (snd (crawl_and_download tree_env None tree_crawler empty_world))) = 1 \<and>
   skipped_count (fst (snd (crawl_and_download tree_env None tree_crawler empty_world))) = 0 \<and>
   files (snd (snd (crawl_and_download tree_env None tree_crawler empty_world))) ''out/a/a.tar'' =
     Some ''AAAA'' \<and>
   \<not> exists_path (snd (snd (crawl_and_download tree_env None tree_crawler empty_world)))
       ''out/a/b.tar''"
proof -
  have links: "page_links tree_env ''https://h/'' =
      [''https://h/'', ''https://h/a/'', ''https://h/meta.json/'', ''https://h/f.tar'']"
    "page_links tree_env ''https://h/a/'' =
      [''https://h/a/a.tar'', ''https://h/a/b.tar'', ''https://h/a/notes.txt'']"
    by (simp_all add: page_links_def parse_links_def tree_env_def ok_response_def http_error_def
        text_of_def List.map_filter_def)
  have h1: "reporters_of (base_url tree_crawler) (page_links tree_env (base_url tree_crawler)) =
      [(''a'', ''https://h/a/'')]"
    by (simp add: tree_crawler_def links endswith_def rstrip_def last_segment_def)
  have h2: "\<forall>k. (None :: int option) = Some k \<longrightarrow> 0 \<le> k" by simp
  have h3: "tar_links tree_env ''https://h/a/'' = [''https://h/a/a.tar'', ''https://h/a/b.tar'']"
    by (simp add: tar_links_def links endswith_def)
  have h4: "last_segment ''https://h/a/a.tar'' = ''a.tar''"
    "last_segment ''https://h/a/b.tar'' = ''b.tar''"
    by (simp_all add: last_segment_def)
  have h5: "no_os_fault tree_env"
    by (simp add: no_os_fault_def tree_env_def)
  have h6: "\<not> embedded_null (path_join (output_dir tree_crawler) ''a'')"
    "files (empty_world :: caselaw_msg world) (path_join (output_dir tree_crawler) ''a'') = None"
    by (simp_all add: empty_world_def embedded_null_def path_join_def tree_crawler_def
        endswith_def)
  have h7: "\<not> exists_path (empty_world :: caselaw_msg world)
               (path_join (path_join (output_dir tree_crawler) ''a'') ''a.tar'')"
    "\<not> exists_path (empty_world :: caselaw_msg world)
               (path_join (path_join (output_dir tree_crawler) ''a'') ''b.tar'')"
    by (simp_all add: exists_path_def empty_world_def)
  have h8: "transfer_succeeds tree_env ''https://h/a/a.tar''"
    by (simp add: transfer_succeeds_def tree_env_def ok_response_def http_error_def
        progress_ok_def total_size_of_def)
  have "progress_ok \<lparr>status_code = 200, content_length = Numeric 5, chunks = [''BB''],
                      stream_error = True\<rparr>"
    by (simp add: progress_ok_def total_size_of_def progress_overflows_small)
  then have h9: "transfer_fails tree_env ''https://h/a/b.tar''"
    by (simp add: transfer_fails_def tree_env_def http_error_def)
  have h10: "downloaded_count tree_crawler = 0" "failed_count tree_crawler = 0"
    "skipped_count tree_crawler = 0"
    by (simp_all add: tree_crawler_def)
  have p: "path_join (path_join (output_dir tree_crawler) ''a'') ''a.tar'' = ''out/a/a.tar''"
    "path_join (path_join (output_dir tree_crawler) ''a'') ''b.tar'' = ''out/a/b.tar''"
    by (simp_all add: path_join_def tree_crawler_def endswith_def)
  have b: "body_of tree_env ''https://h/a/a.tar'' = ''AAAA''"
    by (simp add: body_of_def tree_env_def ok_response_def)
  show ?thesis
    using two_archives_one_fails [OF h1 h2 h3 h4 h5 h6 h7 h8 h9 h10]
    by (simp add: p b)
qed

text \<open>
  C7, as stated, fails: \<^verbatim>\<open>get_page_links\<close> catches the \<^verbatim>\<open>RequestException\<close> and returns the
  empty list, so a page answered with 404 gives \<open>Returned []\<close> and no error; and a status
  outside 2xx that is not 4xx or 5xx (here 300) is not a failure at all, the links of the
  body are returned.
\<close>

theorem failed_page_fetch_returns_empty_list:
  "fst (get_page_links tree_env ''https://h/gone/'' empty_world) = Returned [] \<and>
   fst (get_page_links tree_env ''https://h/cached/'' empty_world) =
     Returned [''https://h/cached/a.tar'', ''https://h/cached/b.tar'', ''https://h/cached/notes.txt'']"
  by (simp add: get_page_links_def parse_links_def requests_get_def tree_env_def ok_response_def
      http_error_def text_of_def List.map_filter_def Let_def)

text \<open>
  C7, amended.  When no response arrives, the body cannot be read, or the status is 4xx or
  5xx, \<^verbatim>\<open>get_page_links\<close> prints the error and returns the empty list; the request was
  sent.  Otherwise the page is parsed: when the parser accepts it and \<^verbatim>\<open>urljoin\<close> resolves
  every \<^verbatim>\<open>href\<close>, the method returns the resolved \<^verbatim>\<open>href\<close> of every anchor that has
  one, in document order; when the parser rejects the page the method raises
  \<^verbatim>\<open>ParserRejectedMarkup\<close>, and when \<^verbatim>\<open>urljoin\<close> rejects an \<^verbatim>\<open>href\<close> it raises
  \<^verbatim>\<open>ValueError\<close>, nothing being printed in either case.
\<close>

theorem get_page_links_outcome:
  "((http env (u, []) = None \<or>
     (\<exists>r. http env (u, []) = Some r \<and> (stream_error r \<or> http_error r))) \<longrightarrow>
      get_page_links env u w =
        (Returned [], say (ErrorFetching u) (w\<lparr>requests := requests w @ [(u, [])]\<rparr>))) \<and>
   (\<forall>r anchors. http env (u, []) = Some r \<and> \<not> stream_error r \<and> \<not> http_error r \<and>
      html_anchors env (text_of r) = Some anchors \<and>
      (\<forall>href \<in> set (List.map_filter id anchors). urljoin env u href \<noteq> None) \<longrightarrow>
      get_page_links env u w =
        (Returned (map (\<lambda>href. the (urljoin env u href)) (List.map_filter id anchors)),
         w\<lparr>requests := requests w @ [(u, [])]\<rparr>)) \<and>
   (\<forall>r. http env (u, []) = Some r \<and> \<not> stream_error r \<and> \<not> http_error r \<and>
      html_anchors env (text_of r) = None \<longrightarrow>
      get_page_links env u w =
        (Raised ParserRejectedMarkup, w\<lparr>requests := requests w @ [(u, [])]\<rparr>)) \<and>
   (\<forall>r anchors. http env (u, []) = Some r \<and> \<not> stream_error r \<and> \<not> http_error r \<and>
      html_anchors env (text_of r) = Some anchors \<and>
      (\<exists>href \<in> set (List.map_filter id anchors). urljoin env u href = None) \<longrightarrow>
      get_page_links env u w =
        (Raised ValueError, w\<lparr>requests := requests w @ [(u, [])]\<rparr>))"
proof (intro conjI allI impI)
  assume "http env (u, []) = None \<or>
     (\<exists>r. http env (u, []) = Some r \<and> (stream_error r \<or> http_error r))"
  then show "get_page_links env u w =
        (Returned [], say (ErrorFetching u) (w\<lparr>requests := requests w @ [(u, [])]\<rparr>))"
    by (auto simp: get_page_links_def requests_get_def Let_def)
next
  fix r anchors
  assume a: "http env (u, []) = Some r \<and> \<not> stream_error r \<and> \<not> http_error r \<and>
      html_anchors env (text_of r) = Some anchors \<and>
      (\<forall>href \<in> set (List.map_filter id anchors). urljoin env u href \<noteq> None)"
  then have "join_hrefs env u (List.map_filter id anchors) =
      Returned (map (\<lambda>href. the (urljoin env u href)) (List.map_filter id anchors))"
    by (intro join_hrefs_Returned) simp
  with a show "get_page_links env u w =
        (Returned (map (\<lambda>href. the (urljoin env u href)) (List.map_filter id anchors)),
         w\<lparr>requests := requests w @ [(u, [])]\<rparr>)"
    by (simp add: get_page_links_def parse_links_def requests_get_def Let_def)
next
  fix r
  assume "http env (u, []) = Some r \<and> \<not> stream_error r \<and> \<not> http_error r \<and>
      html_anchors env (text_of r) = None"
  then show "get_page_links env u w =
        (Raised ParserRejectedMarkup, w\<lparr>requests := requests w @ [(u, [])]\<rparr>)"
    by (simp add: get_page_links_def parse_links_def requests_get_def Let_def)
next
  fix r anchors
  assume a: "http env (u, []) = Some r \<and> \<not> stream_error r \<and> \<not> http_error r \<and>
      html_anchors env (text_of r) = Some anchors \<and>
      (\<exists>href \<in> set (List.map_filter id anchors). urljoin env u href = None)"
  then have "join_hrefs env u (List.map_filter id anchors) = Raised ValueError"
    by (intro join_hrefs_Raised) simp
  with a show "get_page_links env u w =
        (Raised ValueError, w\<lparr>requests := requests w @ [(u, [])]\<rparr>)"
    by (simp add: get_page_links_def parse_links_def requests_get_def Let_def)
qed

text \<open>
  C7, the amended claim for the root page of the example host, for a page that is not
  served, and for the two pages whose parsing raises.
\<close>

theorem get_page_links_witness:
  "get_page_links tree_env ''https://h/'' empty_world =
     (Returned [''https://h/'', ''https://h/a/'', ''https://h/meta.json/'', ''https://h/f.tar''],
      \<lparr>files = Map.empty, dirs = {}, requests = [(''https://h/'', [])], console = [],
        clock = 0\<rparr>) \<and>
   get_page_links tree_env ''https://h/x/'' empty_world =
     (Returned [],
      \<lparr>files = Map.empty, dirs = {}, requests = [(''https://h/x/'', [])],
        console = [ErrorFetching ''https://h/x/''], clock = 0\<rparr>) \<and>
   get_page_links strict_env ''https://h/'' empty_world =
     (Raised ValueError,
      \<lparr>files = Map.empty, dirs = {}, requests = [(''https://h/'', [])], console = [],
        clock = 0\<rparr>) \<and>
   get_page_links strict_env ''https://h/a/'' empty_world =
     (Raised ParserRejectedMarkup,
      \<lparr>files = Map.empty, dirs = {}, requests = [(''https://h/a/'', [])], console = [],
        clock = 0\<rparr>)"
proof -
  have ok: "http tree_env (''https://h/'', []) = Some (ok_response [''ROOT'']) \<and>
      \<not> stream_error (ok_response [''ROOT'']) \<and> \<not> http_error (ok_response [''ROOT''])"
    by (simp add: tree_env_def ok_response_def http_error_def)
  have no: "http tree_env (''https://h/x/'', []) = None"
    by (simp add: tree_env_def)
  have bad: "http strict_env (''https://h/'', []) = Some (ok_response [''ROOT''])"
    "http strict_env (''https://h/a/'', []) = Some (ok_response [''DIR-A''])"
    "\<not> stream_error (ok_response [''DIR-A'']) \<and> \<not> http_error (ok_response [''DIR-A''])"
    by (simp_all add: strict_env_def tree_env_def ok_response_def http_error_def)
  have 1: "get_page_links tree_env ''https://h/'' empty_world =
     (Returned [''https://h/'', ''https://h/a/'', ''https://h/meta.json/'', ''https://h/f.tar''],
      \<lparr>files = Map.empty, dirs = {}, requests = [(''https://h/'', [])], console = [],
        clock = 0\<rparr>)"
    using ok
      get_page_links_outcome [where env = tree_env and u = "''https://h/''" and w = empty_world]
    by (simp add: tree_env_def ok_response_def text_of_def List.map_filter_def empty_world_def)
  have 2: "get_page_links tree_env ''https://h/x/'' empty_world =
     (Returned [],
      \<lparr>files = Map.empty, dirs = {}, requests = [(''https://h/x/'', [])],
        console = [ErrorFetching ''https://h/x/''], clock = 0\<rparr>)"
    using no
      get_page_links_outcome [where env = tree_env and u = "''https://h/x/''" and w = empty_world]
    by (simp add: empty_world_def say_def)
  have 3: "get_page_links strict_env ''https://h/'' empty_world =
     (Raised ValueError,
      \<lparr>files = Map.empty, dirs = {}, requests = [(''https://h/'', [])], console = [],
        clock = 0\<rparr>)"
  proof -
    have r: "\<not> stream_error (ok_response [''ROOT''])" "\<not> http_error (ok_response [''ROOT''])"
      by (simp_all add: ok_response_def http_error_def)
    have h: "html_anchors strict_env (text_of (ok_response [''ROOT''])) =
        Some [Some ''a/'', Some ''//['', Some ''b/'']"
      by (simp add: strict_env_def ok_response_def text_of_def)
    have ex: "\<exists>href \<in> set (List.map_filter id [Some ''a/'', Some ''//['', Some ''b/'']).
        urljoin strict_env ''https://h/'' href = None"
      by (simp add: List.map_filter_def strict_env_def)
    have "get_page_links strict_env ''https://h/'' empty_world =
        (Raised ValueError,
         empty_world\<lparr>requests := requests (empty_world :: caselaw_msg world) @ [(''https://h/'', [])]\<rparr>)"
    proof (rule get_page_links_outcome [where env = strict_env and u = "''https://h/''"
          and w = empty_world, THEN conjunct2, THEN conjunct2, THEN conjunct2, THEN spec,
          THEN spec, THEN mp])
      show "http strict_env (''https://h/'', []) = Some (ok_response [''ROOT'']) \<and>
          \<not> stream_error (ok_response [''ROOT'']) \<and> \<not> http_error (ok_response [''ROOT'']) \<and>
          html_anchors strict_env (text_of (ok_response [''ROOT''])) =
            Some [Some ''a/'', Some ''//['', Some ''b/''] \<and>
          (\<exists>href \<in> set (List.map_filter id [Some ''a/'', Some ''//['', Some ''b/'']).
             urljoin strict_env ''https://h/'' href = None)"
        using bad(1) r h ex by (intro conjI)
    qed
    then show ?thesis by (simp add: empty_world_def)
  qed
  have 4: "get_page_links strict_env ''https://h/a/'' empty_world =
     (Raised ParserRejectedMarkup,
      \<lparr>files = Map.empty, dirs = {}, requests = [(''https://h/a/'', [])], console = [],
        clock = 0\<rparr>)"
    using bad(2,3)
      get_page_links_outcome [where env = strict_env and u = "''https://h/a/''" and w = empty_world]
    by (simp add: strict_env_def ok_response_def text_of_def empty_world_def)
  from 1 2 3 4 show ?thesis by blast
qed




text \<open>
  C3.  \<^verbatim>\<open>discover_files\<close> (the three methods of \<^verbatim>\<open>main\<close>) asks the HTML listing page and the
  bucket it names, then the three alternate URLs in the order of the list, then the storage
  base URL; it returns the first key list that is not empty (\<open>discovered\<close>) and has asked
  nothing beyond the endpoint that gave it (\<open>discovery_requests\<close>).  In particular, when the
  first method yields no keys and the second alternate is the first to yield a non-empty
  list \<open>ks\<close>, the result is \<open>ks\<close> and the requests end with the second alternate: the
  third alternate and the storage endpoint are not asked.
\<close>

theorem discovery_first_nonempty_wins:
  "fst (discover_files env w) = Returned (discovered env) \<and>
   requests (snd (discover_files env w)) = requests w @ discovery_requests env \<and>
   (no_files (html_keys env) \<and>
    alt_keys env (s3_base_url @ ''?list-type=2&prefix=bulk-data/'') = [] \<and>
    alt_keys env (s3_base_url @ ''?prefix=bulk-data/'') = ks \<and> ks \<noteq> [] \<longrightarrow>
      fst (discover_files env w) = Returned (Some ks) \<and>
      requests (snd (discover_files env w)) =
        requests w @ html_requests env @
        [(s3_base_url @ ''?list-type=2&prefix=bulk-data/'', []),
         (s3_base_url @ ''?prefix=bulk-data/'', [])])"
  by (auto simp: discover_files_fst discovered_def discovery_requests_def endpoints_def
      no_files_def)

text \<open>
  C3 on the example bucket, where the second alternate, the third alternate and the storage
  endpoint all have keys: the keys of the second alternate are returned.
\<close>

theorem discovery_witness:
  "no_files (html_keys bucket_env) \<and>
   alt_keys bucket_env (s3_base_url @ ''?list-type=2&prefix=bulk-data/'') = [] \<and>
   alt_keys bucket_env (s3_base_url @ ''?prefix=bulk-data/'') = [''bulk-data/a.bz2'', ''bulk-data/b.bz2''] \<and>
   alt_keys bucket_env (s3_base_url @ ''?delimiter=/&prefix=bulk-data/'') = [''z.bz2''] \<and>
   listing_keys bucket_env storage_base_url = Some [''w.bz2''] \<and>
   fst (discover_files bucket_env empty_world) = Returned (Some [''bulk-data/a.bz2'', ''bulk-data/b.bz2'']) \<and>
   requests (snd (discover_files bucket_env empty_world)) =
     [(list_url, []),
      (''https://demo.s3-us-west-2.amazonaws.com/'', [(''prefix'', ''bulk-data/'')]),
      (s3_base_url @ ''?list-type=2&prefix=bulk-data/'', []),
      (s3_base_url @ ''?prefix=bulk-data/'', [])]"
proof -
  have b: "html_bucket bucket_env = Some ''demo''"
    by (simp add: html_bucket_def bucket_env_def ok_response_def http_error_def text_of_def
        match_bucket_def is_space_def is_quote_def)
  have "listing_keys bucket_env (bucket_url_of ''demo'') = Some []"
    by (simp add: listing_keys_def bucket_url_of_def prefix_params_def
        bucket_env_def list_url_def ok_response_def http_error_def text_of_def bz2_keys_def
        match_key_def endswith_def)
  then have h: "html_keys bucket_env = Some []"
    by (simp add: html_keys_def b)
  have a1: "alt_keys bucket_env (s3_base_url @ ''?list-type=2&prefix=bulk-data/'') = []"
    by (simp add: alt_keys_def bucket_env_def s3_base_url_def list_url_def)
  have a2: "alt_keys bucket_env (s3_base_url @ ''?prefix=bulk-data/'') =
      [''bulk-data/a.bz2'', ''bulk-data/b.bz2'']"
    by (simp add: alt_keys_def bucket_env_def s3_base_url_def list_url_def ok_response_def
        text_of_def bz2_keys_def match_key_def endswith_def)
  have a3: "alt_keys bucket_env (s3_base_url @ ''?delimiter=/&prefix=bulk-data/'') = [''z.bz2'']"
    by (simp add: alt_keys_def bucket_env_def s3_base_url_def list_url_def ok_response_def
        text_of_def bz2_keys_def match_key_def endswith_def)
  have m3: "listing_keys bucket_env storage_base_url = Some [''w.bz2'']"
    by (simp add: listing_keys_def prefix_params_def bucket_env_def s3_base_url_def list_url_def
        storage_base_url_def ok_response_def http_error_def text_of_def bz2_keys_def
        match_key_def endswith_def)
  have r: "html_requests bucket_env =
      [(list_url, []), (''https://demo.s3-us-west-2.amazonaws.com/'', [(''prefix'', ''bulk-data/'')])]"
    by (simp add: html_requests_def b bucket_url_of_def prefix_params_def)
  show ?thesis
    using h a1 a2 a3 m3
      discovery_first_nonempty_wins [where env = bucket_env and w = empty_world
        and ks = "[''bulk-data/a.bz2'', ''bulk-data/b.bz2'']"]
    by (auto simp: no_files_def r empty_world_def)
qed

text \<open>
  C9.  In the object-store script \<^verbatim>\<open>download_file\<close> returns \<^verbatim>\<open>True\<close> for a destination that
  exists, the value it also returns after a completed transfer (one in which the whole body
  arrives, no progress line overflows, the name of the destination has no NUL character
  and no call on the file system fails).  So the loop
  of \<^verbatim>\<open>main\<close> counts every file that was there before in \<^verbatim>\<open>successful\<close>: when the loop
  returns, that counter has grown by at least the number of keys whose destination existed
  at the start, and when all destinations exist it returns with all keys counted as
  successful without a single request.
\<close>

theorem skipped_files_count_as_successful:
  "(exists_path w (destination out k) \<longrightarrow>
      fst (bucket_download_file env k base out w) = Returned True) \<and>
   (\<not> exists_path w (destination out k) \<and> \<not> embedded_null (destination out k) \<and>
    transfer_succeeds env (base @ k) \<and> no_os_fault env \<longrightarrow>
      fst (bucket_download_file env k base out w) = Returned True) \<and>
   (fst (download_all env base out n i ks successful failed w) = Returned (s, f) \<longrightarrow>
      successful + length (filter (\<lambda>k. exists_path w (destination out k)) ks) \<le> s) \<and>
   ((\<forall>k \<in> set ks. exists_path w (destination out k)) \<longrightarrow>
      fst (download_all env base out n i ks successful failed w) =
        Returned (successful + length ks, failed) \<and>
      requests (snd (download_all env base out n i ks successful failed w)) = requests w)"
  using download_all_counts_existing [of env base out n i ks successful failed w s f]
    download_all_all_existing [of ks w out env base n i successful failed]
  by (simp add: bucket_download_file_existing bucket_download_file_succeeds(1))

text \<open>
  C9 on the example store: the loop ends with one successful file and none failed, both
  when the file was already on disk (no request) and when it is fetched.
\<close>

theorem skipped_files_witness:
  "exists_path fetched_world (destination downloads_dir ''bulk-data/a.bz2'') \<and>
   \<not> exists_path (empty_world :: bucket_msg world) (destination downloads_dir ''bulk-data/a.bz2'') \<and>
   \<not> embedded_null (destination downloads_dir ''bulk-data/a.bz2'') \<and>
   transfer_succeeds storage_env (s3_base_url @ ''bulk-data/a.bz2'') \<and> no_os_fault storage_env \<and>
   fst (download_all storage_env s3_base_url downloads_dir 1 1 [''bulk-data/a.bz2''] 0 0
          fetched_world) = Returned (1, 0) \<and>
   requests (snd (download_all storage_env s3_base_url downloads_dir 1 1 [''bulk-data/a.bz2''] 0 0
                    fetched_world)) = [] \<and>
   fst (download_all storage_env s3_base_url downloads_dir 1 1 [''bulk-data/a.bz2''] 0 0
          empty_world) = Returned (1, 0)"
proof -
  have d: "destination downloads_dir ''bulk-data/a.bz2'' = ''courtlistener_downloads/a.bz2''"
    by (simp add: destination_def downloads_dir_def path_join_def basename_def endswith_def)
  have e1: "exists_path fetched_world (destination downloads_dir ''bulk-data/a.bz2'')"
    by (simp add: d exists_path_def fetched_world_def)
  have e2: "\<not> exists_path (empty_world :: bucket_msg world)
              (destination downloads_dir ''bulk-data/a.bz2'')"
    by (simp add: exists_path_def empty_world_def)
  have t: "transfer_succeeds storage_env (s3_base_url @ ''bulk-data/a.bz2'')"
    by (simp add: transfer_succeeds_def storage_env_def s3_base_url_def storage_base_url_def
        ok_response_def http_error_def progress_ok_def total_size_of_def)
  have nf: "no_os_fault storage_env"
    by (simp add: no_os_fault_def storage_env_def)
  have v: "\<not> embedded_null (destination downloads_dir ''bulk-data/a.bz2'')"
    by (simp add: d embedded_null_def)
  have r: "requests fetched_world = []"
    by (simp add: fetched_world_def)
  have fresh: "fst (download_all storage_env s3_base_url downloads_dir 1 1 [''bulk-data/a.bz2''] 0 0
          empty_world) = Returned (1, 0)"
    using e2 t nf v
      skipped_files_count_as_successful [where w = "say (ItemIndex 1 1) empty_world"
        and out = downloads_dir and k = "''bulk-data/a.bz2''" and env = storage_env
        and base = s3_base_url]
    by (simp add: case_prod_beta)
  show ?thesis
    using e1 e2 t nf v r fresh
      skipped_files_count_as_successful [where w = fetched_world and out = downloads_dir
        and ks = "[''bulk-data/a.bz2'']" and env = storage_env and base = s3_base_url
        and n = 1 and i = 1 and successful = 0 and failed = 0]
    by simp
qed

text \<open>
  C10.  The request of \<^verbatim>\<open>download_file\<close> goes to the base URL it is given followed by the
  key, and \<^verbatim>\<open>main\<close> gives it \<^verbatim>\<open>s3_base_url\<close>: whatever method discovered the keys, every
  request after discovery asks for \<^verbatim>\<open>s3_base_url\<close> followed by a discovered key, and a run
  that ends in a directory without any of the files has asked for every key in this way,
  in order.
\<close>

theorem downloads_use_s3_base_url:
  "(\<not> exists_path w (destination out k) \<longrightarrow>
      requests (snd (bucket_download_file env k base out w)) = requests w @ [(base @ k, [])]) \<and>
   (discovered env = Some ks \<and> ks \<noteq> [] \<and> \<not> declined (stdin_line env) \<longrightarrow>
      (\<exists>fetched. requests (snd (main env w)) =
          requests w @ discovery_requests env @ map (\<lambda>k. (s3_base_url @ k, [])) fetched \<and>
          set fetched \<subseteq> set ks)) \<and>
   (discovered env = Some ks \<and> ks \<noteq> [] \<and> \<not> declined (stdin_line env) \<and>
    fst (main env w) = Returned () \<and> distinct (map (destination downloads_dir) ks) \<and>
    (\<forall>k \<in> set ks. \<not> exists_path w (destination downloads_dir k)) \<longrightarrow>
      requests (snd (main env w)) =
        requests w @ discovery_requests env @ map (\<lambda>k. (s3_base_url @ k, [])) ks)"
  using main_requests [of env ks w] main_requests_fresh [of env ks w]
  by (simp add: bucket_download_file_requests)

text \<open>
  C10 on a store whose keys only the storage endpoint lists (method 3): the file is
  requested from \<^verbatim>\<open>s3_base_url\<close>.
\<close>

theorem downloads_witness:
  "discovered storage_env = Some [''bulk-data/a.bz2''] \<and>
   discovery_requests storage_env =
     [(list_url, []), (s3_base_url @ ''?list-type=2&prefix=bulk-data/'', []),
      (s3_base_url @ ''?prefix=bulk-data/'', []),
      (s3_base_url @ ''?delimiter=/&prefix=bulk-data/'', []),
      (storage_base_url, [(''prefix'', ''bulk-data/'')])] \<and>
   fst (main storage_env empty_world) = Returned () \<and>
   requests (snd (main storage_env empty_world)) =
     [(list_url, []), (s3_base_url @ ''?list-type=2&prefix=bulk-data/'', []),
      (s3_base_url @ ''?prefix=bulk-data/'', []),
      (s3_base_url @ ''?delimiter=/&prefix=bulk-data/'', []),
      (storage_base_url, [(''prefix'', ''bulk-data/'')]),
      (s3_base_url @ ''bulk-data/a.bz2'', [])]"
proof -
  have hb: "html_bucket storage_env = None"
    by (simp add: html_bucket_def storage_env_def list_url_def storage_base_url_def s3_base_url_def)
  have a: "alt_keys storage_env (s3_base_url @ ''?list-type=2&prefix=bulk-data/'') = []"
    "alt_keys storage_env (s3_base_url @ ''?prefix=bulk-data/'') = []"
    "alt_keys storage_env (s3_base_url @ ''?delimiter=/&prefix=bulk-data/'') = []"
    by (simp_all add: alt_keys_def storage_env_def storage_base_url_def s3_base_url_def)
  have l: "listing_keys storage_env storage_base_url = Some [''bulk-data/a.bz2'']"
    by (simp add: listing_keys_def prefix_params_def storage_env_def ok_response_def
        http_error_def text_of_def bz2_keys_def match_key_def endswith_def)
  have d: "discovered storage_env = Some [''bulk-data/a.bz2'']"
    by (simp add: discovered_def html_keys_def hb endpoints_def a l no_files_def)
  have q: "discovery_requests storage_env =
     [(list_url, []), (s3_base_url @ ''?list-type=2&prefix=bulk-data/'', []),
      (s3_base_url @ ''?prefix=bulk-data/'', []),
      (s3_base_url @ ''?delimiter=/&prefix=bulk-data/'', []),
      (storage_base_url, [(''prefix'', ''bulk-data/'')])]"
    by (simp add: discovery_requests_def html_requests_def html_keys_def hb endpoints_def a
        no_files_def prefix_params_def)
  have y: "\<not> declined (stdin_line storage_env)"
    by (simp add: declined_def storage_env_def)
  have t: "transfer_succeeds storage_env (s3_base_url @ ''bulk-data/a.bz2'')"
    by (simp add: transfer_succeeds_def storage_env_def s3_base_url_def storage_base_url_def
        ok_response_def http_error_def progress_ok_def total_size_of_def)
  have nf: "no_os_fault storage_env"
    by (simp add: no_os_fault_def storage_env_def)
  have v: "\<not> embedded_null (destination downloads_dir ''bulk-data/a.bz2'')"
    by (simp add: embedded_null_def destination_def downloads_dir_def path_join_def
        basename_def endswith_def)
  have m: "fst (main storage_env empty_world) = Returned ()"
    unfolding main_def using d y
    by (simp add: Let_def case_prod_beta discover_files_fst no_files_def exists_path_def
        empty_world_def bucket_download_file_succeeds(1) [OF t nf _ v])
  have e: "\<forall>k \<in> set [''bulk-data/a.bz2'']. \<not> exists_path (empty_world :: bucket_msg world)
             (destination downloads_dir k)"
    by (simp add: exists_path_def empty_world_def)
  show ?thesis
    using d q y m e
      downloads_use_s3_base_url [where env = storage_env and ks = "[''bulk-data/a.bz2'']"
        and w = empty_world]
    by (simp add: empty_world_def)
qed

end
